theory Spec2Isabelle
  imports Main
begin

section \<open>JavaScript values and strings\<close>

text \<open>
  The repository is a visit counter: a browser widget (\<open>counter-widget-optimized.js\<close>)
  and a serverless function (\<open>exports.handler\<close>) over a PostgreSQL table. Both sides
  exchange JSON. A JSON value is modelled as a datatype; an object is an association
  list read with \<open>map_of\<close>. \<open>JSON.stringify\<close> followed by \<open>JSON.parse\<close> is the
  identity on these values, so a body is carried as the value itself. Numbers are
  integers (the only numbers the program sends are counts, ids and timestamps).
  Strings are lists of code units below 256.
\<close>

datatype json =
    JNull
  | JBool bool
  | JNum int
  | JStr string
  | JArr "json list"
  | JObj "(string \<times> json) list"

text \<open>Exceptions of the source become values of this type.\<close>

datatype error =
    ConnectionError
  | QueryError
  | TypeError
  | SyntaxError
  | SecurityError
  | QuotaExceededError

text \<open>JavaScript truthiness, as used by \<open>x || d\<close>, \<open>if (x)\<close> and \<open>!x\<close>.\<close>

fun truthy :: "json \<Rightarrow> bool" where
  "truthy JNull = False"
| "truthy (JBool b) = b"
| "truthy (JNum n) = (n \<noteq> 0)"
| "truthy (JStr s) = (s \<noteq> [])"
| "truthy (JArr xs) = True"
| "truthy (JObj kvs) = True"

text \<open>
  Property access \<open>v.k\<close> for a key that is no built-in property: it throws a
  TypeError on \<open>null\<close>, reads an object's field, and is \<open>undefined\<close> (\<open>None\<close>) on
  every other value.
\<close>

fun get_prop :: "json \<Rightarrow> string \<Rightarrow> error + json option" where
  "get_prop JNull k = Inl TypeError"
| "get_prop (JObj kvs) k = Inr (map_of kvs k)"
| "get_prop v k = Inr None"

text \<open>
  \<open>String.prototype.trim\<close> removes white space from both ends. Among the code units
  below 256 the white space characters are tab, line feed, vertical tab, form feed,
  carriage return, space and the no-break space.
\<close>

definition is_space :: "char \<Rightarrow> bool" where
  "is_space c \<longleftrightarrow>
     c \<in> set [CHR 0x09, CHR 0x0A, CHR 0x0B, CHR 0x0C, CHR 0x0D, CHR 0x20, CHR 0xA0]"

definition trim :: "string \<Rightarrow> string" where
  "trim s = rev (dropWhile is_space (rev (dropWhile is_space s)))"

text \<open>
  \<open>String.prototype.toLowerCase\<close> on code units below 256: the ASCII capitals and
  the Latin-1 capitals (0xC0 to 0xDE, without the multiplication sign 0xD7) move up
  by 0x20.
\<close>

definition lower_char :: "char \<Rightarrow> char" where
  "lower_char c =
     (let n = of_char c :: nat in
      if (65 \<le> n \<and> n \<le> 90) \<or> (192 \<le> n \<and> n \<le> 222 \<and> n \<noteq> 215)
      then char_of (n + 32) else c)"

definition toLowerCase :: "string \<Rightarrow> string" where
  "toLowerCase s = map lower_char s"

section \<open>The PostgreSQL store\<close>

text \<open>
  The table \<open>counters\<close> as \<open>initTable\<close> creates it: \<open>id SERIAL PRIMARY KEY\<close>,
  \<open>name TEXT UNIQUE NOT NULL\<close>, \<open>count INTEGER DEFAULT 0\<close> and two timestamps. Since
  \<open>name\<close> is unique and never null, the table is a map from the name to the other
  columns of its row, and a \<open>row\<close> holds those other columns. Timestamps are ticks
  of the database clock. The count is an unbounded integer: the 32-bit range of the
  column is not modelled.
\<close>

record row =
  row_id :: nat
  row_count :: int
  created_at :: nat
  updated_at :: nat

record counters_table =
  table_rows :: "string \<rightharpoonup> row"
  id_seq :: nat
  idx_counters_name :: bool

text \<open>
  The database as the function sees it: whether it answers at all, the table
  \<open>counters\<close> (\<open>None\<close> while it does not exist) and \<open>CURRENT_TIMESTAMP\<close>.
\<close>

record store =
  reachable :: bool
  counters :: "counters_table option"
  current_timestamp :: nat

text \<open>The SQL statements of the source, one constructor per statement text.\<close>

datatype query =
    Select1
  | CreateTable
  | CreateIndex
  | SelectByName string
  | InsertZero string
  | UpdateIncrement string
  | InsertOne string
  | UpdateReset string

text \<open>
  One statement, executed atomically on a table that exists. Every statement returns
  the rows of its \<open>RETURNING\<close> or \<open>SELECT\<close> clause; their name is the statement's
  parameter.
  \<^item> \<open>SelectByName\<close>: \<open>SELECT ... WHERE name = $1 LIMIT 1\<close>.
  \<^item> \<open>InsertZero\<close>: \<open>INSERT ... VALUES ($1, 0) ON CONFLICT (name) DO UPDATE SET
    updated_at = CURRENT_TIMESTAMP RETURNING ...\<close>.
  \<^item> \<open>UpdateIncrement\<close>: \<open>UPDATE counters SET count = count + 1, updated_at = ... WHERE
    name = $1 RETURNING ...\<close>.
  \<^item> \<open>InsertOne\<close>: \<open>INSERT ... VALUES ($1, 1) ON CONFLICT (name) DO UPDATE SET count =
    counters.count + 1, updated_at = ... RETURNING ...\<close>.
  \<^item> \<open>UpdateReset\<close>: \<open>UPDATE counters SET count = 0, updated_at = ... WHERE name = $1
    RETURNING ...\<close>.
  An insert draws the next value of the id sequence, also when it meets a conflict.
\<close>

definition new_row :: "nat \<Rightarrow> int \<Rightarrow> nat \<Rightarrow> row" where
  "new_row i c t = \<lparr>row_id = i, row_count = c, created_at = t, updated_at = t\<rparr>"

definition put_row :: "string \<Rightarrow> row \<Rightarrow> counters_table \<Rightarrow> counters_table" where
  "put_row n r t = t\<lparr>table_rows := (table_rows t)(n \<mapsto> r)\<rparr>"

fun run_statement :: "query \<Rightarrow> nat \<Rightarrow> counters_table \<Rightarrow> row list \<times> counters_table" where
  "run_statement Select1 now t = ([], t)"
| "run_statement CreateTable now t = ([], t)"
| "run_statement CreateIndex now t = ([], t\<lparr>idx_counters_name := True\<rparr>)"
| "run_statement (SelectByName n) now t =
     (case table_rows t n of None \<Rightarrow> ([], t) | Some r \<Rightarrow> ([r], t))"
| "run_statement (InsertZero n) now t =
     (let t' = t\<lparr>id_seq := id_seq t + 1\<rparr> in
      case table_rows t n of
        None \<Rightarrow> (let r = new_row (id_seq t) 0 now in ([r], put_row n r t'))
      | Some r0 \<Rightarrow> (let r = r0\<lparr>updated_at := now\<rparr> in ([r], put_row n r t')))"
| "run_statement (UpdateIncrement n) now t =
     (case table_rows t n of
        None \<Rightarrow> ([], t)
      | Some r0 \<Rightarrow>
          (let r = r0\<lparr>row_count := row_count r0 + 1, updated_at := now\<rparr>
           in ([r], put_row n r t)))"
| "run_statement (InsertOne n) now t =
     (let t' = t\<lparr>id_seq := id_seq t + 1\<rparr> in
      case table_rows t n of
        None \<Rightarrow> (let r = new_row (id_seq t) 1 now in ([r], put_row n r t'))
      | Some r0 \<Rightarrow>
          (let r = r0\<lparr>row_count := row_count r0 + 1, updated_at := now\<rparr>
           in ([r], put_row n r t')))"
| "run_statement (UpdateReset n) now t =
     (case table_rows t n of
        None \<Rightarrow> ([], t)
      | Some r0 \<Rightarrow>
          (let r = r0\<lparr>row_count := 0, updated_at := now\<rparr> in ([r], put_row n r t)))"

definition empty_table :: counters_table where
  "empty_table = \<lparr>table_rows = Map.empty, id_seq = 1, idx_counters_name = False\<rparr>"

text \<open>
  \<open>client.query\<close>: it rejects when the database does not answer, and when a statement
  other than \<open>SELECT 1\<close> and \<open>CREATE TABLE IF NOT EXISTS\<close> meets a missing table.
\<close>

definition pg_query :: "query \<Rightarrow> store \<Rightarrow> (error + row list) \<times> store" where
  "pg_query q db =
     (if \<not> reachable db then (Inl ConnectionError, db)
      else if q = Select1 then (Inr [], db)
      else if q = CreateTable then
        (case counters db of
           None \<Rightarrow> (Inr [], db\<lparr>counters := Some empty_table\<rparr>)
         | Some t \<Rightarrow> (Inr [], db))
      else
        (case counters db of
           None \<Rightarrow> (Inl QueryError, db)
         | Some t \<Rightarrow>
             (case run_statement q (current_timestamp db) t of
                (rs, t') \<Rightarrow> (Inr rs, db\<lparr>counters := Some t'\<rparr>))))"

section \<open>The serverless function\<close>

text \<open>
  The module's globals: \<open>client\<close> (whether it is not \<open>null\<close>), \<open>connected\<close>, and
  \<open>TABLE_INIT_CACHE\<close> (whether it holds the key \<open>counters_table\<close>). The database is
  carried along as the fourth field.
\<close>

record server =
  client :: bool
  connected :: bool
  table_init_cache :: bool
  db :: store

text \<open>
  \<open>ensureConnected\<close>. Its first part tests a connected client with \<open>SELECT 1\<close> and
  returns when that succeeds. Its second part, \<open>connect_client\<close>, creates the client
  when there is none and calls \<open>client.connect()\<close>, which is taken to succeed
  exactly when the database answers. (Whether the driver accepts a second
  \<open>connect()\<close> on a client that was connected before is not modelled: the
  properties of a working instance below are stated for instances whose client, when
  it exists, is connected.)
\<close>

definition connect_client :: "server \<Rightarrow> (error + unit) \<times> server" where
  "connect_client s =
     (let s1 = (if \<not> client s then s\<lparr>client := True\<rparr> else s) in
      if reachable (db s1) then (Inr (), s1\<lparr>connected := True\<rparr>)
      else (Inl ConnectionError, s1))"

definition ensureConnected :: "server \<Rightarrow> (error + unit) \<times> server" where
  "ensureConnected s =
     (if connected s \<and> client s then
        (case pg_query Select1 (db s) of
           (Inr rs, d) \<Rightarrow> (Inr (), s\<lparr>db := d\<rparr>)
         | (Inl e, d) \<Rightarrow> connect_client (s\<lparr>db := d, connected := False\<rparr>))
      else connect_client s)"

text \<open>\<open>executeQuery\<close>: connect, run the statement, rethrow its failure.\<close>

definition executeQuery :: "query \<Rightarrow> server \<Rightarrow> (error + row list) \<times> server" where
  "executeQuery q s =
     (case ensureConnected s of
        (Inl e, s1) \<Rightarrow> (Inl e, s1)
      | (Inr u, s1) \<Rightarrow>
          (case pg_query q (db s1) of (r, d) \<Rightarrow> (r, s1\<lparr>db := d\<rparr>)))"

text \<open>
  \<open>initTable\<close>: skipped once the cache holds the key; otherwise both statements are
  tried and the key is set whether they succeeded or not. It never throws.
\<close>

definition initTable :: "server \<Rightarrow> server" where
  "initTable s =
     (if table_init_cache s then s
      else
        (case executeQuery CreateTable s of
           (Inl e, s1) \<Rightarrow> s1\<lparr>table_init_cache := True\<rparr>
         | (Inr rs, s1) \<Rightarrow>
             (case executeQuery CreateIndex s1 of
                (Inl e, s2) \<Rightarrow> s2\<lparr>table_init_cache := True\<rparr>
              | (Inr rs', s2) \<Rightarrow> s2\<lparr>table_init_cache := True\<rparr>)))"

text \<open>
  The event of a request. The body is given by what \<open>JSON.parse(body || '{}')\<close> makes
  of it: an absent or empty body, a text that does not parse, or the parsed value.
\<close>

datatype request_body = NoBody | Malformed | JsonBody json

record event =
  httpMethod :: string
  queryStringParameters :: "(string \<times> string) list"
  body :: request_body

record response =
  statusCode :: nat
  headers :: "(string \<times> string) list"
  reply :: "json option"

definition cors_headers :: "(string \<times> string) list" where
  "cors_headers =
     [(''Content-Type'', ''application/json; charset=utf-8''),
      (''Access-Control-Allow-Origin'', ''*''),
      (''Access-Control-Allow-Methods'', ''GET, POST, OPTIONS''),
      (''Access-Control-Allow-Headers'', ''Content-Type''),
      (''Cache-Control'', ''public, max-age=60''),
      (''X-Content-Type-Options'', ''nosniff'')]"

definition respond :: "nat \<Rightarrow> json \<Rightarrow> response" where
  "respond code j = \<lparr>statusCode = code, headers = cors_headers, reply = Some j\<rparr>"

text \<open>
  The error texts of the source are Chinese; they are rendered here by ASCII glosses.
\<close>

definition error_body :: "string \<Rightarrow> json" where
  "error_body msg = JObj [(''error'', JStr msg)]"

definition error_message :: "error \<Rightarrow> string" where
  "error_message e =
     (case e of
        ConnectionError \<Rightarrow> ''connection failed''
      | QueryError \<Rightarrow> ''relation does not exist''
      | TypeError \<Rightarrow> ''not a function''
      | SyntaxError \<Rightarrow> ''unexpected token''
      | SecurityError \<Rightarrow> ''access denied''
      | QuotaExceededError \<Rightarrow> ''quota exceeded'')"

definition row_json :: "string \<Rightarrow> row \<Rightarrow> json" where
  "row_json n r =
     JObj [(''id'', JNum (int (row_id r))),
           (''name'', JStr n),
           (''count'', JNum (row_count r)),
           (''created_at'', JNum (int (created_at r))),
           (''updated_at'', JNum (int (updated_at r)))]"

text \<open>
  \<open>params\<close>: the parsed body of a POST (\<open>None\<close> when it does not parse), the query
  string parameters of every other request.
\<close>

definition request_params :: "event \<Rightarrow> json option" where
  "request_params ev =
     (if httpMethod ev = ''POST'' then
        (case body ev of
           NoBody \<Rightarrow> Some (JObj [])
         | Malformed \<Rightarrow> None
         | JsonBody j \<Rightarrow> Some j)
      else Some (JObj (map (\<lambda>(k, v). (k, JStr v)) (queryStringParameters ev))))"

text \<open>
  \<open>(params.k || d).trim()\<close>: a missing or falsy field gives the default, a string is
  trimmed, and any other truthy value has no \<open>trim\<close> method.
\<close>

definition string_param :: "json \<Rightarrow> string \<Rightarrow> string \<Rightarrow> error + string" where
  "string_param params k d =
     (case get_prop params k of
        Inl e \<Rightarrow> Inl e
      | Inr None \<Rightarrow> Inr (trim d)
      | Inr (Some v) \<Rightarrow>
          (if \<not> truthy v then Inr (trim d)
           else (case v of JStr s \<Rightarrow> Inr (trim s) | _ \<Rightarrow> Inl TypeError)))"

text \<open>The GET branch: select the row, and insert it with count 0 when there is none.\<close>

definition get_branch :: "string \<Rightarrow> server \<Rightarrow> (error + response) \<times> server" where
  "get_branch counterName s =
     (case executeQuery (SelectByName counterName) s of
        (Inl e, s1) \<Rightarrow> (Inl e, s1)
      | (Inr (r # rs), s1) \<Rightarrow> (Inr (respond 200 (row_json counterName r)), s1)
      | (Inr [], s1) \<Rightarrow>
          (case executeQuery (InsertZero counterName) s1 of
             (Inl e, s2) \<Rightarrow> (Inl e, s2)
           | (Inr [], s2) \<Rightarrow> (Inr \<lparr>statusCode = 200, headers = cors_headers, reply = None\<rparr>, s2)
           | (Inr (r # rs), s2) \<Rightarrow> (Inr (respond 200 (row_json counterName r)), s2)))"

text \<open>
  The increment branch suspends at each \<open>await executeQuery(...)\<close>. To keep these
  points visible it is written as a task: a computation that is done with a value, or
  awaits the result of one statement and goes on with it. \<open>run_task\<close> runs a task
  without interruption, every statement through \<open>executeQuery\<close>.
\<close>

datatype 'a task = Done 'a | Await query "error + row list \<Rightarrow> 'a task"

primrec run_task :: "'a task \<Rightarrow> server \<Rightarrow> 'a \<times> server" where
  "run_task (Done x) s = (x, s)"
| "run_task (Await q k) s = (case executeQuery q s of (res, s1) \<Rightarrow> run_task (k res) s1)"

text \<open>
  The increment branch: the update, and the upsert when the update met no row
  (\<open>insert_task\<close>). A failing statement throws.
\<close>

definition insert_task :: "string \<Rightarrow> (error + response) task" where
  "insert_task counterName =
     Await (InsertOne counterName)
       (\<lambda>newResult. case newResult of
          Inl e \<Rightarrow> Done (Inl e)
        | Inr [] \<Rightarrow> Done (Inr \<lparr>statusCode = 200, headers = cors_headers, reply = None\<rparr>)
        | Inr (r # rs) \<Rightarrow> Done (Inr (respond 200 (row_json counterName r))))"

definition increment_task :: "string \<Rightarrow> (error + response) task" where
  "increment_task counterName =
     Await (UpdateIncrement counterName)
       (\<lambda>result. case result of
          Inl e \<Rightarrow> Done (Inl e)
        | Inr (r # rs) \<Rightarrow> Done (Inr (respond 200 (row_json counterName r)))
        | Inr [] \<Rightarrow> insert_task counterName)"

definition increment_branch :: "string \<Rightarrow> server \<Rightarrow> (error + response) \<times> server" where
  "increment_branch counterName s = run_task (increment_task counterName) s"

text \<open>
  The reset branch: \<open>result.rows[0] || { name: counterName, count: 0 }\<close>.
\<close>

definition reset_branch :: "string \<Rightarrow> server \<Rightarrow> (error + response) \<times> server" where
  "reset_branch counterName s =
     (case executeQuery (UpdateReset counterName) s of
        (Inl e, s1) \<Rightarrow> (Inl e, s1)
      | (Inr (r # rs), s1) \<Rightarrow> (Inr (respond 200 (row_json counterName r)), s1)
      | (Inr [], s1) \<Rightarrow>
          (Inr (respond 200 (JObj [(''name'', JStr counterName), (''count'', JNum 0)])), s1))"

text \<open>
  The handler after its parameters are read: the validation of the name and the
  choice of the branch by method and action.
\<close>

definition route :: "string \<Rightarrow> string \<Rightarrow> string \<Rightarrow> server \<Rightarrow> (error + response) \<times> server" where
  "route method counterName action s1 =
     (if counterName = [] \<or> length counterName > 100 then
        (Inr (respond 400 (error_body ''invalid counterName (1-100 characters)'')), s1)
      else if method = ''GET'' then get_branch counterName s1
      else if method = ''POST'' then
        (if action = ''increment'' then increment_branch counterName s1
         else if action = ''reset'' then reset_branch counterName s1
         else (Inr (respond 400
                 (error_body ''invalid action, supported: increment, reset'')), s1))
      else (Inr (respond 405 (error_body ''method not allowed'')), s1))"

text \<open>
  The body of the handler's \<open>try\<close> block: the preflight reply, the table, the
  parameters \<open>(params.counterName || 'default').trim()\<close> and
  \<open>(params.action || 'get').trim().toLowerCase()\<close>, then the routing.
\<close>

definition handle_request :: "event \<Rightarrow> server \<Rightarrow> (error + response) \<times> server" where
  "handle_request ev s =
     (if httpMethod ev = ''OPTIONS'' then
        (Inr \<lparr>statusCode = 200, headers = cors_headers, reply = None\<rparr>, s)
      else
        (let s1 = initTable s in
         case request_params ev of
           None \<Rightarrow> (Inr (respond 400 (error_body ''malformed request body'')), s1)
         | Some params \<Rightarrow>
             (case string_param params ''counterName'' ''default'' of
                Inl e \<Rightarrow> (Inl e, s1)
              | Inr counterName \<Rightarrow>
                  (case string_param params ''action'' ''get'' of
                     Inl e \<Rightarrow> (Inl e, s1)
                   | Inr a \<Rightarrow> route (httpMethod ev) counterName (toLowerCase a) s1))))"

text \<open>\<open>exports.handler\<close>: every exception of the body becomes a 500 reply.\<close>

definition handler :: "event \<Rightarrow> server \<Rightarrow> response \<times> server" where
  "handler ev s =
     (case handle_request ev s of
        (Inr r, s1) \<Rightarrow> (r, s1)
      | (Inl e, s1) \<Rightarrow>
          (respond 500
             (JObj [(''error'', JStr ''server error''), (''message'', JStr (error_message e))]),
           s1))"

section \<open>The widget: storage and transport\<close>

definition CACHE_KEY :: string where
  "CACHE_KEY = ''netlify_counter_cache''"

definition CACHE_DURATION :: int where
  "CACHE_DURATION = 5 * 60 * 1000"

definition cache_key :: "string \<Rightarrow> string" where
  "cache_key k = CACHE_KEY @ ''_'' @ k"

text \<open>
  An item of \<open>localStorage\<close> under a cache key is given by what \<open>JSON.parse\<close> makes of
  it: the \<open>{data, timestamp}\<close> pair that \<open>CacheManager.set\<close> wrote, or a text that does
  not parse. The storage itself may refuse every access (disabled storage: a
  SecurityError) or every write (quota exceeded); the source's comment in
  \<open>CacheManager.set\<close> names both cases.
\<close>

datatype cache_item = Unparsable | Entry json int

record local_storage =
  ls_disabled :: bool
  ls_full :: bool
  ls_items :: "string \<rightharpoonup> cache_item"

definition ls_getItem :: "string \<Rightarrow> local_storage \<Rightarrow> error + cache_item option" where
  "ls_getItem k ls = (if ls_disabled ls then Inl SecurityError else Inr (ls_items ls k))"

definition ls_setItem :: "string \<Rightarrow> cache_item \<Rightarrow> local_storage \<Rightarrow> error + local_storage" where
  "ls_setItem k v ls =
     (if ls_disabled ls then Inl SecurityError
      else if ls_full ls then Inl QuotaExceededError
      else Inr (ls\<lparr>ls_items := (ls_items ls)(k \<mapsto> v)\<rparr>))"

definition ls_removeItem :: "string \<Rightarrow> local_storage \<Rightarrow> error + local_storage" where
  "ls_removeItem k ls =
     (if ls_disabled ls then Inl SecurityError
      else Inr (ls\<lparr>ls_items := (ls_items ls)(k := None)\<rparr>))"

text \<open>
  \<open>sessionStorage\<close> holds one item, under \<open>SESSION_KEY\<close>: the object of flags, given
  by the set of names it maps to \<open>true\<close>, or a text that does not parse.
\<close>

datatype session_item = Corrupt | Visited "string set"

record session_storage =
  ss_disabled :: bool
  ss_full :: bool
  ss_item :: "session_item option"

definition ss_getItem :: "session_storage \<Rightarrow> error + session_item option" where
  "ss_getItem ss = (if ss_disabled ss then Inl SecurityError else Inr (ss_item ss))"

definition ss_setItem :: "session_item \<Rightarrow> session_storage \<Rightarrow> error + session_storage" where
  "ss_setItem v ss =
     (if ss_disabled ss then Inl SecurityError
      else if ss_full ss then Inl QuotaExceededError
      else Inr (ss\<lparr>ss_item := Some v\<rparr>))"

text \<open>
  The transport between the page and the function: the reply arrives, the request
  never reaches the function (\<open>fetch\<close> rejects), or the function runs and its reply
  comes back unreadable (\<open>res.json()\<close> rejects).
\<close>

datatype transport = LinkUp | LinkDown | LinkGarbled

text \<open>
  What the container element shows: nothing yet, the loading text, the fallback text,
  or the count (the value of \<open>data.count\<close>, \<open>None\<close> for \<open>undefined\<close>). Only the last
  state has the element \<open>netlify-counter-number\<close>.
\<close>

datatype view = Untouched | Loading | Fallback | Displayed "json option"

text \<open>
  The state the widget runs in: \<open>Date.now()\<close>, the time a round trip takes, the two
  storages, the transport, the function's own state behind it, the requests sent so
  far, and the container element (\<open>None\<close> when the page has none).
\<close>

record world =
  clock :: int
  latency :: int
  localStorage :: local_storage
  sessionStorage :: session_storage
  link :: transport
  service :: server
  sent :: "event list"
  container :: "view option"

text \<open>
  \<open>fetch\<close> followed by \<open>res.json()\<close>. \<open>fetch\<close> resolves for every HTTP status; the
  request is logged in \<open>sent\<close>.
\<close>

definition fetch_json :: "event \<Rightarrow> world \<Rightarrow> (error + json) \<times> world" where
  "fetch_json ev w =
     (let w1 = w\<lparr>sent := sent w @ [ev], clock := clock w + latency w\<rparr> in
      case link w of
        LinkDown \<Rightarrow> (Inl TypeError, w1)
      | LinkGarbled \<Rightarrow>
          (case handler ev (service w) of (r, s') \<Rightarrow> (Inl SyntaxError, w1\<lparr>service := s'\<rparr>))
      | LinkUp \<Rightarrow>
          (case handler ev (service w) of
             (r, s') \<Rightarrow>
               (case reply r of
                  None \<Rightarrow> (Inl SyntaxError, w1\<lparr>service := s'\<rparr>)
                | Some j \<Rightarrow> (Inr j, w1\<lparr>service := s'\<rparr>))))"

section \<open>The widget: CacheManager and SessionManager\<close>

text \<open>
  Every function of the widget returns \<open>Inl\<close> for an exception that leaves it and
  \<open>Inr\<close> for a value, next to the state it leaves behind. A \<open>try\<close> block is the
  place where an \<open>Inl\<close> of a callee is turned into the \<open>catch\<close> branch's value;
  \<open>null\<close> is \<open>JNull\<close>.

  \<open>CacheManager.get\<close>: the whole body is inside \<open>try\<close>.
\<close>

definition CacheManager_get :: "string \<Rightarrow> world \<Rightarrow> (error + json) \<times> world" where
  "CacheManager_get key w =
     (case ls_getItem (cache_key key) (localStorage w) of
        Inl e \<Rightarrow> (Inr JNull, w)
      | Inr None \<Rightarrow> (Inr JNull, w)
      | Inr (Some Unparsable) \<Rightarrow> (Inr JNull, w)
      | Inr (Some (Entry d t)) \<Rightarrow>
          (if clock w - t > CACHE_DURATION then
             (case ls_removeItem (cache_key key) (localStorage w) of
                Inl e \<Rightarrow> (Inr JNull, w)
              | Inr ls \<Rightarrow> (Inr JNull, w\<lparr>localStorage := ls\<rparr>))
           else (Inr d, w)))"

text \<open>\<open>CacheManager.set\<close>: a failing write is caught and ignored.\<close>

definition CacheManager_set :: "string \<Rightarrow> json \<Rightarrow> world \<Rightarrow> (error + unit) \<times> world" where
  "CacheManager_set key d w =
     (case ls_setItem (cache_key key) (Entry d (clock w)) (localStorage w) of
        Inl e \<Rightarrow> (Inr (), w)
      | Inr ls \<Rightarrow> (Inr (), w\<lparr>localStorage := ls\<rparr>))"

text \<open>\<open>CacheManager.clear\<close> has no \<open>try\<close>: a failing storage throws to the caller.\<close>

definition CacheManager_clear :: "string \<Rightarrow> world \<Rightarrow> (error + unit) \<times> world" where
  "CacheManager_clear key w =
     (case ls_removeItem (cache_key key) (localStorage w) of
        Inl e \<Rightarrow> (Inl e, w)
      | Inr ls \<Rightarrow> (Inr (), w\<lparr>localStorage := ls\<rparr>))"

text \<open>
  \<open>SessionManager.hasVisited\<close> and \<open>markVisited\<close> have no \<open>try\<close> either: a failing
  storage and an item that does not parse throw to the caller. \<open>read_visited\<close> is
  the two lines both share: \<open>session ? JSON.parse(session) : {}\<close>. The assignment
  \<open>visited[name] = true\<close> creates the property for every name but \<open>__proto__\<close>,
  where it calls the prototype setter, which ignores a boolean.
\<close>

definition read_visited :: "world \<Rightarrow> error + string set" where
  "read_visited w =
     (case ss_getItem (sessionStorage w) of
        Inl e \<Rightarrow> Inl e
      | Inr None \<Rightarrow> Inr {}
      | Inr (Some Corrupt) \<Rightarrow> Inl SyntaxError
      | Inr (Some (Visited S)) \<Rightarrow> Inr S)"

definition hasVisited :: "string \<Rightarrow> world \<Rightarrow> error + bool" where
  "hasVisited name w =
     (case read_visited w of Inl e \<Rightarrow> Inl e | Inr S \<Rightarrow> Inr (name \<in> S))"

definition markVisited :: "string \<Rightarrow> world \<Rightarrow> (error + unit) \<times> world" where
  "markVisited name w =
     (case read_visited w of
        Inl e \<Rightarrow> (Inl e, w)
      | Inr S \<Rightarrow>
          (case ss_setItem (Visited (if name = ''__proto__'' then S else insert name S))
                  (sessionStorage w) of
             Inl e \<Rightarrow> (Inl e, w)
           | Inr ss \<Rightarrow> (Inr (), w\<lparr>sessionStorage := ss\<rparr>)))"

section \<open>The widget: fetchCounter, updateCounter, initCounter\<close>

definition get_request :: "string \<Rightarrow> event" where
  "get_request name =
     \<lparr>httpMethod = ''GET'', queryStringParameters = [(''counterName'', name)], body = NoBody\<rparr>"

definition post_request :: "string \<Rightarrow> string \<Rightarrow> event" where
  "post_request name action =
     \<lparr>httpMethod = ''POST'', queryStringParameters = [],
      body = JsonBody (JObj [(''action'', JStr action), (''counterName'', JStr name)])\<rparr>"

text \<open>
  \<open>fetchCounter\<close>: the call of \<open>CacheManager.get\<close> stands before the \<open>try\<close>; the
  request, \<open>res.json()\<close> and \<open>CacheManager.set\<close> stand inside it, and the \<open>catch\<close>
  branch returns \<open>null\<close>.
\<close>

definition fetchCounter :: "string \<Rightarrow> world \<Rightarrow> (error + json) \<times> world" where
  "fetchCounter name w =
     (case CacheManager_get name w of
        (Inl e, w1) \<Rightarrow> (Inl e, w1)
      | (Inr cached, w1) \<Rightarrow>
          (if truthy cached then (Inr cached, w1)
           else
             (case fetch_json (get_request name) w1 of
                (Inl e, w2) \<Rightarrow> (Inr JNull, w2)
              | (Inr d, w2) \<Rightarrow>
                  (case CacheManager_set name d w2 of
                     (Inl e, w3) \<Rightarrow> (Inr JNull, w3)
                   | (Inr u, w3) \<Rightarrow> (Inr d, w3)))))"

text \<open>
  \<open>updateCounter\<close>: the request is always sent; \<open>CacheManager.clear\<close> runs inside the
  \<open>try\<close>, so its exception gives \<open>null\<close> as well.
\<close>

definition updateCounter :: "string \<Rightarrow> string \<Rightarrow> world \<Rightarrow> (error + json) \<times> world" where
  "updateCounter name action w =
     (case fetch_json (post_request name action) w of
        (Inl e, w1) \<Rightarrow> (Inr JNull, w1)
      | (Inr d, w1) \<Rightarrow>
          (case CacheManager_clear name w1 of
             (Inl e, w2) \<Rightarrow> (Inr JNull, w2)
           | (Inr u, w2) \<Rightarrow> (Inr d, w2)))"

text \<open>\<open>data.count\<close>.\<close>

definition count_of :: "json \<Rightarrow> json option" where
  "count_of d = (case get_prop d ''count'' of Inl e \<Rightarrow> None | Inr v \<Rightarrow> v)"

text \<open>
  \<open>initCounter\<close>, up to the timer: the result says whether the delayed increment was
  scheduled. Everything after the loading text stands inside \<open>try\<close>; the \<open>catch\<close>
  branch shows the fallback text.
\<close>

definition initCounter :: "string \<Rightarrow> world \<Rightarrow> (error + bool) \<times> world" where
  "initCounter name w =
     (case container w of
        None \<Rightarrow> (Inr False, w)
      | Some v \<Rightarrow>
          (case fetchCounter name (w\<lparr>container := Some Loading\<rparr>) of
             (Inl e, w1) \<Rightarrow> (Inr False, w1\<lparr>container := Some Fallback\<rparr>)
           | (Inr d, w1) \<Rightarrow>
               (if \<not> truthy d then (Inr False, w1\<lparr>container := Some Fallback\<rparr>)
                else
                  (let w2 = w1\<lparr>container := Some (Displayed (count_of d))\<rparr> in
                   case hasVisited name w2 of
                     Inl e \<Rightarrow> (Inr False, w2\<lparr>container := Some Fallback\<rparr>)
                   | Inr visited \<Rightarrow> (Inr (\<not> visited), w2)))))"

text \<open>
  The timer's callback, which has no \<open>try\<close>. It writes to the element
  \<open>netlify-counter-number\<close>, which exists only while the count is displayed.
\<close>

definition delayed_increment :: "string \<Rightarrow> world \<Rightarrow> (error + unit) \<times> world" where
  "delayed_increment name w =
     (case updateCounter name ''increment'' w of
        (Inl e, w1) \<Rightarrow> (Inl e, w1)
      | (Inr updated, w1) \<Rightarrow>
          (if truthy updated then
             (case container w1 of
                Some (Displayed c) \<Rightarrow>
                  markVisited name (w1\<lparr>container := Some (Displayed (count_of updated))\<rparr>)
              | _ \<Rightarrow> (Inl TypeError, w1))
           else (Inr (), w1)))"

text \<open>Time passing between two calls, and a reload of the page in the same tab.\<close>

definition advance :: "int \<Rightarrow> world \<Rightarrow> world" where
  "advance d w = w\<lparr>clock := clock w + d\<rparr>"

definition reload :: "world \<Rightarrow> world" where
  "reload w = w\<lparr>container := Some Untouched\<rparr>"

section \<open>Concurrent increments\<close>

text \<open>
  Several increment requests for one name in flight, each on an instance of the
  function with globals of its own, all against one database. A process is an
  instance together with the place where its request stands: it has \<open>Arrived\<close>, or
  it is \<open>Running\<close> the rest of the increment task. One step of a process runs the
  handler up to its next suspension, on the database as the other processes left it:
  from \<open>Arrived\<close> it runs \<open>initTable\<close> and reaches the increment task; at an \<open>Await\<close>
  it runs the statement through \<open>executeQuery\<close> and goes on with the result. The
  \<open>db\<close> field of a process's instance is not read: the shared database is put in
  its place for the step. (\<open>executeQuery\<close> and \<open>initTable\<close> are taken as one step
  each; the statements they run besides the awaited one, \<open>SELECT 1\<close> and the two
  \<open>CREATE ... IF NOT EXISTS\<close>, read and write no row.)
\<close>

datatype phase = Arrived | Running "(error + response) task"

fun step_process :: "string \<Rightarrow> server \<times> phase \<Rightarrow> store \<Rightarrow> (server \<times> phase) \<times> store" where
  "step_process n (s, Arrived) d =
     (let s1 = initTable (s\<lparr>db := d\<rparr>) in ((s1, Running (increment_task n)), db s1))"
| "step_process n (s, Running (Await q k)) d =
     (case executeQuery q (s\<lparr>db := d\<rparr>) of (res, s1) \<Rightarrow> ((s1, Running (k res)), db s1))"
| "step_process n (s, Running (Done x)) d = ((s, Running (Done x)), d)"

text \<open>
  A schedule names, step by step, the process that runs next.
\<close>

fun interleave ::
  "string \<Rightarrow> nat list \<Rightarrow> (server \<times> phase) list \<times> store \<Rightarrow> (server \<times> phase) list \<times> store"
where
  "interleave n [] c = c"
| "interleave n (i # sched) (ps, d) =
     (if i < length ps then
        (case step_process n (ps ! i) d of
           (p', d') \<Rightarrow> interleave n sched (ps[i := p'], d'))
      else interleave n sched (ps, d))"

text \<open>A process whose request is answered, and their number in a list.\<close>

definition answered :: "server \<times> phase \<Rightarrow> bool" where
  "answered p = (case snd p of Running (Done x) \<Rightarrow> True | _ \<Rightarrow> False)"

definition answered_count :: "(server \<times> phase) list \<Rightarrow> int" where
  "answered_count ps = (\<Sum>p\<leftarrow>ps. if answered p then 1 else 0)"

text \<open>
  What holds of every process while the database answers: its client, when it exists,
  is connected; before \<open>initTable\<close> the table exists if the instance no longer tries
  to create it; after \<open>initTable\<close> the table exists (\<open>tbl\<close>) and the process stands
  at the update, at the upsert, or at its reply, a row with status 200.
\<close>

definition process_ok :: "string \<Rightarrow> bool \<Rightarrow> server \<times> phase \<Rightarrow> bool" where
  "process_ok n tbl p \<longleftrightarrow>
     (client (fst p) \<longrightarrow> connected (fst p)) \<and>
     (case snd p of
        Arrived \<Rightarrow> (table_init_cache (fst p) \<longrightarrow> tbl)
      | Running t \<Rightarrow>
          tbl \<and>
          (t = increment_task n \<or> t = insert_task n \<or>
           (\<exists>r. t = Done (Inr (respond 200 (row_json n r))))))"

text \<open>
  A bound on the turns a request still needs: three on arrival (\<open>initTable\<close>, the
  update, the upsert), two before the update, one before any other statement, none
  once it has its reply.
\<close>

fun turns_left :: "phase \<Rightarrow> nat" where
  "turns_left Arrived = 3"
| "turns_left (Running (Done x)) = 0"
| "turns_left (Running (Await q k)) = (case q of UpdateIncrement n \<Rightarrow> 2 | _ \<Rightarrow> 1)"

section \<open>Vocabulary of the properties\<close>

text \<open>
  A name is valid when it is not empty and has at most 100 characters; the handler
  tests the trimmed name.
\<close>

definition valid_name :: "string \<Rightarrow> bool" where
  "valid_name n \<longleftrightarrow> n \<noteq> [] \<and> length n \<le> 100"

text \<open>
  The function's instance works: the database answers, the client was never left
  unconnected, and the table exists if its creation is no longer tried.
\<close>

definition healthy :: "server \<Rightarrow> bool" where
  "healthy s \<longleftrightarrow>
     reachable (db s) \<and> (client s \<longrightarrow> connected s) \<and>
     (table_init_cache s \<longrightarrow> counters (db s) \<noteq> None)"

text \<open>
  The same once \<open>initTable\<close> has run: the table exists.
\<close>

definition ready :: "server \<Rightarrow> bool" where
  "ready s \<longleftrightarrow>
     reachable (db s) \<and> (client s \<longrightarrow> connected s) \<and> counters (db s) \<noteq> None"

text \<open>
  The row the table holds for a name, and the count the database holds for it (0
  when there is no row).
\<close>

definition stored_row :: "string \<Rightarrow> server \<Rightarrow> row option" where
  "stored_row n s = (case counters (db s) of None \<Rightarrow> None | Some t \<Rightarrow> table_rows t n)"

definition stored_count :: "string \<Rightarrow> store \<Rightarrow> int" where
  "stored_count n d =
     (case counters d of
        None \<Rightarrow> 0
      | Some t \<Rightarrow> (case table_rows t n of None \<Rightarrow> 0 | Some r \<Rightarrow> row_count r))"

text \<open>The count a reply carries, if it carries one.\<close>

definition reply_count :: "response \<Rightarrow> int option" where
  "reply_count r =
     (case reply r of
        None \<Rightarrow> None
      | Some j \<Rightarrow> (case count_of j of Some (JNum c) \<Rightarrow> Some c | _ \<Rightarrow> None))"


text \<open>
  The cached value of a name that \<open>CacheManager.get\<close> would hand out: the entry is
  there, readable, and not older than the TTL.
\<close>

definition cache_hit :: "string \<Rightarrow> world \<Rightarrow> json option" where
  "cache_hit name w =
     (if ls_disabled (localStorage w) then None
      else
        (case ls_items (localStorage w) (cache_key name) of
           Some (Entry d t) \<Rightarrow> (if clock w - t \<le> CACHE_DURATION then Some d else None)
         | _ \<Rightarrow> None))"

text \<open>The storages of the page work: no access and no write is refused.\<close>

definition local_ok :: "world \<Rightarrow> bool" where
  "local_ok w \<longleftrightarrow> \<not> ls_disabled (localStorage w) \<and> \<not> ls_full (localStorage w)"

definition session_ok :: "world \<Rightarrow> bool" where
  "session_ok w \<longleftrightarrow>
     \<not> ss_disabled (sessionStorage w) \<and> \<not> ss_full (sessionStorage w) \<and>
     ss_item (sessionStorage w) \<noteq> Some Corrupt"

text \<open>
  A parameter object whose fields are all strings, as the query string parameters of
  every request are and as the body is that the widget posts.
\<close>

definition string_fields :: "json \<Rightarrow> bool" where
  "string_fields p =
     (case p of
        JObj kvs \<Rightarrow> list_all (\<lambda>(k, v). case v of JStr x \<Rightarrow> True | _ \<Rightarrow> False) kvs
      | _ \<Rightarrow> False)"

text \<open>
  The entry of a name is there, readable and older than the TTL; and the state after
  its removal.
\<close>

definition expired :: "string \<Rightarrow> world \<Rightarrow> bool" where
  "expired name w \<longleftrightarrow>
     \<not> ls_disabled (localStorage w) \<and>
     (case ls_items (localStorage w) (cache_key name) of
        Some (Entry d t) \<Rightarrow> clock w - t > CACHE_DURATION
      | _ \<Rightarrow> False)"

definition purge :: "string \<Rightarrow> world \<Rightarrow> world" where
  "purge name w =
     w\<lparr>localStorage :=
         (localStorage w)\<lparr>ls_items := (ls_items (localStorage w))(cache_key name := None)\<rparr>\<rparr>"

text \<open>
  Every cached entry holds a truthy value. The widget only caches replies of the
  function, which are objects, so this holds in every state the widget builds from an
  empty cache.
\<close>

definition cache_sound :: "world \<Rightarrow> bool" where
  "cache_sound w \<longleftrightarrow>
     (\<forall>k d t. ls_items (localStorage w) k = Some (Entry d t) \<longrightarrow> truthy d)"

text \<open>The count in a value that \<open>fetchCounter\<close> or \<open>updateCounter\<close> returned.\<close>

definition returned_count :: "error + json \<Rightarrow> int option" where
  "returned_count r =
     (case r of
        Inl e \<Rightarrow> None
      | Inr j \<Rightarrow> (case count_of j of Some (JNum c) \<Rightarrow> Some c | _ \<Rightarrow> None))"

section \<open>States used as examples\<close>

definition fresh_store :: store where
  "fresh_store = \<lparr>reachable = True, counters = None, current_timestamp = 0\<rparr>"

definition table_store :: store where
  "table_store = \<lparr>reachable = True, counters = Some empty_table, current_timestamp = 0\<rparr>"

definition fresh_server :: server where
  "fresh_server =
     \<lparr>client = False, connected = False, table_init_cache = False, db = fresh_store\<rparr>"

definition fresh_world :: world where
  "fresh_world =
     \<lparr>clock = 0, latency = 20,
      localStorage = \<lparr>ls_disabled = False, ls_full = False, ls_items = Map.empty\<rparr>,
      sessionStorage = \<lparr>ss_disabled = False, ss_full = False, ss_item = None\<rparr>,
      link = LinkUp, service = fresh_server, sent = [], container = Some Untouched\<rparr>"

text \<open>
  A page whose storages refuse every access, with the function reachable and without
  it.
\<close>

definition blocked_world :: world where
  "blocked_world =
     fresh_world
       \<lparr>localStorage := \<lparr>ls_disabled = True, ls_full = False, ls_items = Map.empty\<rparr>,
        sessionStorage := \<lparr>ss_disabled = True, ss_full = False, ss_item = None\<rparr>\<rparr>"

definition offline_world :: world where
  "offline_world = blocked_world\<lparr>link := LinkDown\<rparr>"

text \<open>A page whose function cannot reach its database.\<close>

definition failing_db_world :: world where
  "failing_db_world =
     fresh_world\<lparr>service := fresh_server\<lparr>db := fresh_store\<lparr>reachable := False\<rparr>\<rparr>\<rparr>"

text \<open>
  A page that holds a cached count for \<open>home\<close>, stored at time 0: one second later,
  and one millisecond after the TTL (then without a connection).
\<close>

definition cached_world :: world where
  "cached_world =
     fresh_world
       \<lparr>clock := 1000,
        localStorage :=
          \<lparr>ls_disabled = False, ls_full = False,
           ls_items = [cache_key ''home'' \<mapsto> Entry (JObj [(''count'', JNum 5)]) 0]\<rparr>\<rparr>"

definition stale_world :: world where
  "stale_world = cached_world\<lparr>clock := 300001, link := LinkDown\<rparr>"

text \<open>A page that displays the count 0, with and without a connection.\<close>

definition shown_world :: world where
  "shown_world = fresh_world\<lparr>container := Some (Displayed (Some (JNum 0)))\<rparr>"

definition shown_offline :: world where
  "shown_offline = shown_world\<lparr>link := LinkDown\<rparr>"

text \<open>
  The end-to-end scenario: a first GET for \<open>home\<close> on a fresh page, then the
  increment POST.
\<close>

definition scenario_after_get :: world where
  "scenario_after_get = snd (fetchCounter ''home'' fresh_world)"

definition scenario_after_post :: world where
  "scenario_after_post = snd (updateCounter ''home'' ''increment'' scenario_after_get)"

text \<open>
  A first visit of the page \<open>home\<close> while the function cannot reach its database:
  the state after the page has loaded, and after the timer's callback has run one
  second later.
\<close>

definition failed_load :: world where
  "failed_load = snd (initCounter ''page_home'' failing_db_world)"

definition failed_callback :: world where
  "failed_callback = snd (delayed_increment ''page_home'' (advance 1000 failed_load))"

section \<open>Properties of the handler\<close>

subsection \<open>Strings and parameters\<close>

lemma trim_Nil: "trim [] = []"
  by (simp add: trim_def)

lemma trim_idem: "trim (trim s) = trim s"
proof -
  define t where "t = dropWhile is_space s"
  define u where "u = dropWhile is_space (rev t)"
  have u_self: "dropWhile is_space u = u"
    unfolding u_def by simp
  have "dropWhile is_space (rev u) = rev u"
  proof (cases "u = []")
    case True
    then show ?thesis by simp
  next
    case False
    then have t: "t \<noteq> []"
      unfolding u_def by auto
    have nh: "\<not> is_space (hd t)"
      using t unfolding t_def by (metis hd_dropWhile)
    have "hd u \<in> set (rev t)"
      using False unfolding u_def by (metis hd_in_set set_dropWhileD)
    moreover have "\<not> is_space (hd u)"
      using False unfolding u_def by (metis hd_dropWhile)
    ultimately have "last u = last (rev t)"
      unfolding u_def by (metis dropWhile_last)
    also have "\<dots> = hd t"
      using t by (simp add: last_rev)
    finally have "hd (rev u) = hd t"
      using False by (simp add: hd_rev)
    with nh False show ?thesis
      by (simp add: dropWhile_eq_self_iff)
  qed
  then show ?thesis
    unfolding trim_def t_def[symmetric] u_def[symmetric] by (simp add: u_self)
qed

lemma trim_literals:
  "trim ''default'' = ''default''" "trim ''get'' = ''get''"
  "trim ''reset'' = ''reset''" "trim ''increment'' = ''increment''"
  by (simp_all add: trim_def is_space_def)

lemma lower_literals:
  "toLowerCase ''get'' = ''get''" "toLowerCase ''reset'' = ''reset''"
  "toLowerCase ''increment'' = ''increment''"
  by (simp_all add: toLowerCase_def lower_char_def)

lemma string_param_string_fields:
  assumes "string_fields p"
  shows "\<exists>a. string_param p k d = Inr a"
proof -
  obtain kvs where p: "p = JObj kvs"
    and all: "list_all (\<lambda>(k, v). case v of JStr x \<Rightarrow> True | _ \<Rightarrow> False) kvs"
    using assms by (auto simp: string_fields_def split: json.splits)
  show ?thesis
  proof (cases "map_of kvs k")
    case None
    then show ?thesis by (simp add: p string_param_def)
  next
    case (Some v)
    then have "(k, v) \<in> set kvs" by (rule map_of_SomeD)
    with all obtain x where "v = JStr x"
      by (auto simp: list_all_iff split: json.splits)
    with Some show ?thesis by (simp add: p string_param_def)
  qed
qed

lemma string_param_query:
  "string_param (JObj (map (\<lambda>(k, v). (k, JStr v)) qs)) k d =
     Inr (case map_of qs k of None \<Rightarrow> trim d | Some v \<Rightarrow> if v = [] then trim d else trim v)"
  by (induction qs) (auto simp: string_param_def split: option.splits)

subsection \<open>Validation of the name\<close>

lemma get_branch_status:
  "fst (get_branch n s) = Inr r \<Longrightarrow> statusCode r = 200"
  by (auto simp: get_branch_def respond_def split: prod.splits sum.splits list.splits)

lemma handle_empty_name:
  "handle_request (get_request []) s = get_branch ''default'' (initTable s)"
  "handle_request (get_request ''default'') s = get_branch ''default'' (initTable s)"
  by (simp_all add: handle_request_def route_def get_request_def request_params_def
      string_param_def trim_literals Let_def)

text \<open>
  Claim C2, as the code has it. The claim says that every request with an empty name
  or a name longer than 100 characters is answered 400, and that a GET with an empty
  \<open>counterName\<close> parameter is. The handler replaces an empty (falsy) name by
  \<open>default\<close> before it validates, so the empty name is served. What holds: for every
  request other than OPTIONS whose parameters parse to an object of strings, a
  non-empty name that is empty once trimmed, or longer than 100 characters once
  trimmed, is answered 400, whatever the state of the function; and a GET with the
  empty name is never answered 400, it is answered as the GET for \<open>default\<close> is.
\<close>

theorem name_validation:
  "(httpMethod ev \<noteq> ''OPTIONS'' \<and> request_params ev = Some p \<and> string_fields p \<and>
    get_prop p ''counterName'' = Inr (Some (JStr raw)) \<and> raw \<noteq> [] \<and>
    (trim raw = [] \<or> 100 < length (trim raw))
      \<longrightarrow> statusCode (fst (handler ev s)) = 400) \<and>
   statusCode (fst (handler (get_request []) s)) \<noteq> 400 \<and>
   handler (get_request []) s = handler (get_request ''default'') s"
proof (intro conjI impI)
  assume a: "httpMethod ev \<noteq> ''OPTIONS'' \<and> request_params ev = Some p \<and> string_fields p \<and>
    get_prop p ''counterName'' = Inr (Some (JStr raw)) \<and> raw \<noteq> [] \<and>
    (trim raw = [] \<or> 100 < length (trim raw))"
  then obtain a' where act: "string_param p ''action'' ''get'' = Inr a'"
    using string_param_string_fields by blast
  have name: "string_param p ''counterName'' ''default'' = Inr (trim raw)"
    using a by (simp add: string_param_def)
  show "statusCode (fst (handler ev s)) = 400"
    using a act name
    by (auto simp: handler_def handle_request_def route_def respond_def Let_def)
next
  show "statusCode (fst (handler (get_request []) s)) \<noteq> 400"
    using get_branch_status[of "''default''" "initTable s"]
    by (auto simp: handler_def handle_empty_name respond_def split: prod.splits sum.splits)
next
  show "handler (get_request []) s = handler (get_request ''default'') s"
    by (simp add: handler_def handle_empty_name)
qed

text \<open>
  The rejection at a name of one space, on a function that was never called before.
\<close>

theorem name_validation_witness:
  "httpMethod (get_request '' '') \<noteq> ''OPTIONS'' \<and>
   request_params (get_request '' '') = Some (JObj [(''counterName'', JStr '' '')]) \<and>
   string_fields (JObj [(''counterName'', JStr '' '')]) \<and>
   get_prop (JObj [(''counterName'', JStr '' '')]) ''counterName'' = Inr (Some (JStr '' '')) \<and>
   trim '' '' = [] \<and>
   statusCode (fst (handler (get_request '' '') fresh_server)) = 400"
  using name_validation[of "get_request '' ''" "JObj [(''counterName'', JStr '' '')]" "'' ''"
      fresh_server]
  by (simp add: get_request_def request_params_def string_fields_def trim_def is_space_def)

text \<open>
  The claim's own example fails: \<open>GET ?counterName=\<close> on a fresh function is answered
  200.
\<close>

theorem empty_name_counterexample:
  "statusCode (fst (handler
     \<lparr>httpMethod = ''GET'', queryStringParameters = [(''counterName'', [])], body = NoBody\<rparr>
     fresh_server)) = 200"
  by (simp add: handler_def handle_request_def route_def request_params_def string_param_def
      trim_literals toLowerCase_def lower_char_def Let_def initTable_def executeQuery_def
      ensureConnected_def
      connect_client_def pg_query_def fresh_server_def fresh_store_def empty_table_def get_branch_def
      new_row_def put_row_def respond_def)

subsection \<open>The default name and trimming\<close>

lemma handle_request_cong:
  assumes "httpMethod ev = httpMethod ev'"
    and "request_params ev = Some p" "request_params ev' = Some p'"
    and "string_param p ''counterName'' ''default'' = string_param p' ''counterName'' ''default''"
    and "string_param p ''action'' ''get'' = string_param p' ''action'' ''get''"
  shows "handle_request ev s = handle_request ev' s"
  using assms by (auto simp: handle_request_def Let_def split: sum.splits)

lemma handler_cong:
  "handle_request ev s = handle_request ev' s \<Longrightarrow> handler ev s = handler ev' s"
  by (simp add: handler_def)

lemma handler_Inr:
  "fst (handle_request ev s) = Inr r \<Longrightarrow> handler ev s = (r, snd (handle_request ev s))"
  by (auto simp: handler_def split: prod.splits sum.splits)

lemma query_default:
  assumes "map_of qs ''counterName'' = None"
  shows "handler (ev\<lparr>queryStringParameters := qs\<rparr>) s =
         handler (ev\<lparr>queryStringParameters := (''counterName'', ''default'') # qs\<rparr>) s"
proof (cases "httpMethod ev = ''POST''")
  case True
  then show ?thesis
    by (simp add: handler_def handle_request_def request_params_def Let_def
        cong: option.case_cong sum.case_cong)
next
  case False
  have "string_param (JObj (map (\<lambda>(k, v). (k, JStr v)) qs)) ''counterName'' ''default'' =
        Inr ''default''"
    using assms by (simp add: string_param_query trim_literals)
  with False show ?thesis
    by (intro handler_cong handle_request_cong[where
          p = "JObj (map (\<lambda>(k, v). (k, JStr v)) qs)" and
          p' = "JObj (map (\<lambda>(k, v). (k, JStr v)) ((''counterName'', ''default'') # qs))"])
       (simp_all add: request_params_def string_param_def trim_literals)
qed

lemma body_default:
  assumes "map_of kvs ''counterName'' = None"
  shows "handler (ev\<lparr>body := JsonBody (JObj kvs)\<rparr>) s =
         handler (ev\<lparr>body := JsonBody (JObj ((''counterName'', JStr ''default'') # kvs))\<rparr>) s"
proof (cases "httpMethod ev = ''POST''")
  case False
  then show ?thesis
    by (simp add: handler_def handle_request_def request_params_def Let_def
        cong: option.case_cong sum.case_cong)
next
  case True
  then show ?thesis
    using assms
    by (intro handler_cong handle_request_cong[where
          p = "JObj kvs" and p' = "JObj ((''counterName'', JStr ''default'') # kvs)"])
       (simp_all add: request_params_def string_param_def trim_literals)
qed

lemma query_trim:
  assumes "trim n \<noteq> []"
  shows "handler (ev\<lparr>queryStringParameters := (''counterName'', n) # qs\<rparr>) s =
         handler (ev\<lparr>queryStringParameters := (''counterName'', trim n) # qs\<rparr>) s"
proof (cases "httpMethod ev = ''POST''")
  case True
  then show ?thesis
    by (simp add: handler_def handle_request_def request_params_def Let_def
        cong: option.case_cong sum.case_cong)
next
  case False
  from assms have "n \<noteq> []" by (auto simp: trim_Nil)
  with False assms show ?thesis
    by (intro handler_cong handle_request_cong[where
          p = "JObj (map (\<lambda>(k, v). (k, JStr v)) ((''counterName'', n) # qs))" and
          p' = "JObj (map (\<lambda>(k, v). (k, JStr v)) ((''counterName'', trim n) # qs))"])
       (simp_all add: request_params_def string_param_def trim_idem)
qed

lemma body_trim:
  assumes "trim n \<noteq> []"
  shows "handler (ev\<lparr>body := JsonBody (JObj ((''counterName'', JStr n) # kvs))\<rparr>) s =
         handler (ev\<lparr>body := JsonBody (JObj ((''counterName'', JStr (trim n)) # kvs))\<rparr>) s"
proof (cases "httpMethod ev = ''POST''")
  case False
  then show ?thesis
    by (simp add: handler_def handle_request_def request_params_def Let_def
        cong: option.case_cong sum.case_cong)
next
  case True
  from assms have "n \<noteq> []" by (auto simp: trim_Nil)
  with True assms show ?thesis
    by (intro handler_cong handle_request_cong[where
          p = "JObj ((''counterName'', JStr n) # kvs)" and
          p' = "JObj ((''counterName'', JStr (trim n)) # kvs)"])
       (simp_all add: request_params_def string_param_def trim_idem)
qed

subsection \<open>A working instance\<close>

lemma ensureConnected_ready:
  "reachable (db s) \<Longrightarrow> (client s \<longrightarrow> connected s) \<Longrightarrow>
   ensureConnected s = (Inr (), s\<lparr>client := True, connected := True\<rparr>)"
  by (auto simp: ensureConnected_def connect_client_def pg_query_def)

lemma executeQuery_ready:
  "reachable (db s) \<Longrightarrow> (client s \<longrightarrow> connected s) \<Longrightarrow>
   executeQuery q s =
     (fst (pg_query q (db s)),
      s\<lparr>client := True, connected := True, db := snd (pg_query q (db s))\<rparr>)"
  by (simp add: executeQuery_def ensureConnected_ready split: prod.splits)

lemma initTable_healthy:
  assumes "healthy s"
  shows "ready (initTable s)"
    and "stored_row n (initTable s) = stored_row n s"
    and "current_timestamp (db (initTable s)) = current_timestamp (db s)"
    and "table_init_cache (initTable s)"
  using assms
  by (auto simp: healthy_def ready_def initTable_def executeQuery_ready pg_query_def
      stored_row_def empty_table_def
      split: option.splits prod.splits sum.splits if_splits)

lemma get_branch_present:
  assumes "ready s" "stored_row n s = Some r"
  shows "fst (get_branch n s) = Inr (respond 200 (row_json n r))"
    and "ready (snd (get_branch n s))"
    and "stored_row m (snd (get_branch n s)) = stored_row m s"
    and "table_init_cache (snd (get_branch n s)) = table_init_cache s"
  using assms
  by (auto simp: ready_def get_branch_def executeQuery_ready pg_query_def stored_row_def
      split: option.splits prod.splits sum.splits if_splits list.splits)

lemma get_branch_absent:
  assumes "ready s" "stored_row n s = None"
  shows "\<exists>r. fst (get_branch n s) = Inr (respond 200 (row_json n r)) \<and> row_count r = 0 \<and> stored_row n (snd (get_branch n s)) = Some r"
    and "ready (snd (get_branch n s))"
    and "m \<noteq> n \<Longrightarrow> stored_row m (snd (get_branch n s)) = stored_row m s"
    and "table_init_cache (snd (get_branch n s)) = table_init_cache s"
  using assms
  by (auto simp: ready_def get_branch_def executeQuery_ready pg_query_def stored_row_def
      Let_def new_row_def put_row_def
      split: option.splits prod.splits sum.splits if_splits list.splits)

lemma reset_branch_present:
  assumes "ready s" "stored_row n s = Some r"
  shows "fst (reset_branch n s) =
           Inr (respond 200
             (row_json n (r\<lparr>row_count := 0, updated_at := current_timestamp (db s)\<rparr>)))"
    and "ready (snd (reset_branch n s))"
    and "stored_row n (snd (reset_branch n s)) =
           Some (r\<lparr>row_count := 0, updated_at := current_timestamp (db s)\<rparr>)"
    and "table_init_cache (snd (reset_branch n s)) = table_init_cache s"
  using assms
  by (auto simp: ready_def reset_branch_def executeQuery_ready pg_query_def stored_row_def
      Let_def put_row_def
      split: option.splits prod.splits sum.splits if_splits list.splits)

lemma reset_branch_absent:
  assumes "ready s" "stored_row n s = None"
  shows "fst (reset_branch n s) =
           Inr (respond 200 (JObj [(''name'', JStr n), (''count'', JNum 0)]))"
    and "ready (snd (reset_branch n s))"
    and "stored_row m (snd (reset_branch n s)) = stored_row m s"
    and "table_init_cache (snd (reset_branch n s)) = table_init_cache s"
  using assms
  by (auto simp: ready_def reset_branch_def executeQuery_ready pg_query_def stored_row_def
      Let_def put_row_def
      split: option.splits prod.splits sum.splits if_splits list.splits)

lemma handle_get_valid:
  "valid_name (trim raw) \<Longrightarrow>
   handle_request (get_request raw) s = get_branch (trim raw) (initTable s)"
  by (auto simp: handle_request_def route_def get_request_def request_params_def
      string_param_def valid_name_def Let_def trim_Nil trim_literals lower_literals)

lemma handle_reset_valid:
  "valid_name (trim raw) \<Longrightarrow>
   handle_request (post_request raw ''reset'') s = reset_branch (trim raw) (initTable s)"
  by (auto simp: handle_request_def route_def post_request_def request_params_def
      string_param_def valid_name_def trim_literals lower_literals Let_def trim_Nil)

lemma handle_increment_valid:
  "valid_name (trim raw) \<Longrightarrow>
   handle_request (post_request raw ''increment'') s =
     increment_branch (trim raw) (initTable s)"
  by (auto simp: handle_request_def route_def post_request_def request_params_def
      string_param_def valid_name_def trim_literals lower_literals Let_def trim_Nil)

lemma healthy_after:
  "ready s \<Longrightarrow> table_init_cache s \<Longrightarrow> healthy s"
  by (simp add: ready_def healthy_def)

lemma reply_count_row: "reply_count (respond c (row_json n r)) = Some (row_count r)"
  by (simp add: reply_count_def respond_def row_json_def count_of_def)

lemma handler_get_present:
  assumes "healthy s" "valid_name (trim raw)" "stored_row (trim raw) s = Some r"
  shows "fst (handler (get_request raw) s) = respond 200 (row_json (trim raw) r)"
    and "healthy (snd (handler (get_request raw) s))"
    and "stored_row m (snd (handler (get_request raw) s)) = stored_row m s"
proof -
  let ?s1 = "initTable s"
  have r1: "ready ?s1" and t1: "table_init_cache ?s1"
    and st: "\<And>k. stored_row k ?s1 = stored_row k s"
    using initTable_healthy[OF assms(1)] by auto
  have pres: "stored_row (trim raw) ?s1 = Some r"
    using assms(3) st by simp
  note gb = get_branch_present[OF r1 pres]
  have h: "handler (get_request raw) s =
      (respond 200 (row_json (trim raw) r), snd (get_branch (trim raw) ?s1))"
    using gb(1) handler_Inr[of "get_request raw" s "respond 200 (row_json (trim raw) r)"]
    by (simp add: handle_get_valid[OF assms(2)])
  show "fst (handler (get_request raw) s) = respond 200 (row_json (trim raw) r)"
    by (simp add: h)
  show "healthy (snd (handler (get_request raw) s))"
    using gb(2) gb(4) t1 by (simp add: h healthy_after)
  show "stored_row m (snd (handler (get_request raw) s)) = stored_row m s"
    using gb(3)[of m] st by (simp add: h)
qed

lemma handler_get_absent:
  assumes "healthy s" "valid_name (trim raw)" "stored_row (trim raw) s = None"
  shows "\<exists>r. fst (handler (get_request raw) s) = respond 200 (row_json (trim raw) r) \<and>
           row_count r = 0 \<and>
           stored_row (trim raw) (snd (handler (get_request raw) s)) = Some r"
    and "healthy (snd (handler (get_request raw) s))"
proof -
  let ?s1 = "initTable s"
  have r1: "ready ?s1" and t1: "table_init_cache ?s1"
    and st: "\<And>k. stored_row k ?s1 = stored_row k s"
    using initTable_healthy[OF assms(1)] by auto
  have abs: "stored_row (trim raw) ?s1 = None"
    using assms(3) st by simp
  note gb = get_branch_absent[OF r1 abs]
  from gb(1) obtain r where
    r: "fst (get_branch (trim raw) ?s1) = Inr (respond 200 (row_json (trim raw) r))"
      "row_count r = 0"
      "stored_row (trim raw) (snd (get_branch (trim raw) ?s1)) = Some r"
    by blast
  have h: "handler (get_request raw) s =
      (respond 200 (row_json (trim raw) r), snd (get_branch (trim raw) ?s1))"
    using r(1) handler_Inr[of "get_request raw" s "respond 200 (row_json (trim raw) r)"]
    by (simp add: handle_get_valid[OF assms(2)])
  show "\<exists>r. fst (handler (get_request raw) s) = respond 200 (row_json (trim raw) r) \<and>
           row_count r = 0 \<and>
           stored_row (trim raw) (snd (handler (get_request raw) s)) = Some r"
    using r by (auto simp: h)
  show "healthy (snd (handler (get_request raw) s))"
    using gb(2) gb(4) t1 by (simp add: h healthy_after)
qed

subsection \<open>Incrementing a counter\<close>

lemma stored_count_row:
  "stored_count n (db s) = (case stored_row n s of None \<Rightarrow> 0 | Some r \<Rightarrow> row_count r)"
  by (simp add: stored_count_def stored_row_def split: option.splits)

lemma increment_branch_ready:
  assumes "ready s"
  shows "\<exists>r. fst (increment_branch n s) = Inr (respond 200 (row_json n r)) \<and>
           stored_row n (snd (increment_branch n s)) = Some r \<and>
           row_count r = stored_count n (db s) + 1"
    and "ready (snd (increment_branch n s))"
    and "m \<noteq> n \<Longrightarrow> stored_row m (snd (increment_branch n s)) = stored_row m s"
    and "table_init_cache (snd (increment_branch n s)) = table_init_cache s"
  using assms
  by (auto simp: ready_def increment_branch_def increment_task_def insert_task_def
      executeQuery_ready pg_query_def stored_row_def stored_count_def Let_def new_row_def
      put_row_def split: option.splits prod.splits sum.splits if_splits list.splits)

lemma handler_increment:
  assumes "healthy s" "valid_name (trim raw)"
  shows "\<exists>r. fst (handler (post_request raw ''increment'') s) =
             respond 200 (row_json (trim raw) r) \<and>
           stored_row (trim raw) (snd (handler (post_request raw ''increment'') s)) = Some r \<and>
           row_count r = stored_count (trim raw) (db s) + 1"
    and "healthy (snd (handler (post_request raw ''increment'') s))"
    and "m \<noteq> trim raw \<Longrightarrow>
           stored_row m (snd (handler (post_request raw ''increment'') s)) = stored_row m s"
proof -
  let ?s1 = "initTable s"
  let ?ev = "post_request raw ''increment''"
  have r1: "ready ?s1" and t1: "table_init_cache ?s1"
    and st: "\<And>k. stored_row k ?s1 = stored_row k s"
    using initTable_healthy[OF assms(1)] by auto
  have sc: "stored_count (trim raw) (db ?s1) = stored_count (trim raw) (db s)"
    by (simp add: stored_count_row st)
  note ib = increment_branch_ready[OF r1, where n = "trim raw"]
  from ib(1) obtain r where
    r: "fst (increment_branch (trim raw) ?s1) = Inr (respond 200 (row_json (trim raw) r))"
      "stored_row (trim raw) (snd (increment_branch (trim raw) ?s1)) = Some r"
      "row_count r = stored_count (trim raw) (db ?s1) + 1"
    by blast
  have h: "handler ?ev s =
      (respond 200 (row_json (trim raw) r), snd (increment_branch (trim raw) ?s1))"
    using r(1) handler_Inr[of ?ev s "respond 200 (row_json (trim raw) r)"]
    by (simp add: handle_increment_valid[OF assms(2)])
  show "\<exists>r. fst (handler ?ev s) = respond 200 (row_json (trim raw) r) \<and>
           stored_row (trim raw) (snd (handler ?ev s)) = Some r \<and>
           row_count r = stored_count (trim raw) (db s) + 1"
    using r sc by (auto simp: h)
  show "healthy (snd (handler ?ev s))"
    using ib(2) ib(4) t1 by (simp add: h healthy_after)
  show "stored_row m (snd (handler ?ev s)) = stored_row m s" if "m \<noteq> trim raw"
    using ib(3)[OF that] st by (simp add: h)
qed

subsection \<open>The counter that a request addresses\<close>

lemma get_branch_ready:
  assumes "ready s"
  shows "\<exists>r. fst (get_branch n s) = Inr (respond 200 (row_json n r)) \<and>
           stored_row n (snd (get_branch n s)) = Some r \<and>
           row_count r = stored_count n (db s)"
    and "m \<noteq> n \<Longrightarrow> stored_row m (snd (get_branch n s)) = stored_row m s"
  using assms
  by (auto simp: ready_def get_branch_def executeQuery_ready pg_query_def stored_row_def
      stored_count_def Let_def new_row_def put_row_def
      split: option.splits prod.splits sum.splits if_splits list.splits)

lemma handler_get_addressed:
  assumes "healthy s" "valid_name (trim raw)"
  shows "\<exists>r. fst (handler (get_request raw) s) = respond 200 (row_json (trim raw) r) \<and>
           stored_row (trim raw) (snd (handler (get_request raw) s)) = Some r \<and>
           row_count r = stored_count (trim raw) (db s)"
    and "m \<noteq> trim raw \<Longrightarrow> stored_row m (snd (handler (get_request raw) s)) = stored_row m s"
proof -
  let ?s1 = "initTable s"
  have r1: "ready ?s1"
    and st: "\<And>k. stored_row k ?s1 = stored_row k s"
    using initTable_healthy[OF assms(1)] by auto
  have sc: "stored_count (trim raw) (db ?s1) = stored_count (trim raw) (db s)"
    by (simp add: stored_count_row st)
  note gb = get_branch_ready[OF r1, where n = "trim raw"]
  from gb(1) obtain r where
    r: "fst (get_branch (trim raw) ?s1) = Inr (respond 200 (row_json (trim raw) r))"
      "stored_row (trim raw) (snd (get_branch (trim raw) ?s1)) = Some r"
      "row_count r = stored_count (trim raw) (db ?s1)"
    by blast
  have h: "handler (get_request raw) s =
      (respond 200 (row_json (trim raw) r), snd (get_branch (trim raw) ?s1))"
    using r(1) handler_Inr[of "get_request raw" s "respond 200 (row_json (trim raw) r)"]
    by (simp add: handle_get_valid[OF assms(2)])
  show "\<exists>r. fst (handler (get_request raw) s) = respond 200 (row_json (trim raw) r) \<and>
           stored_row (trim raw) (snd (handler (get_request raw) s)) = Some r \<and>
           row_count r = stored_count (trim raw) (db s)"
    using r sc by (auto simp: h)
  show "stored_row m (snd (handler (get_request raw) s)) = stored_row m s" if "m \<noteq> trim raw"
    using gb(2)[OF that] st by (simp add: h)
qed

lemma handler_rejects_name:
  assumes "bad \<noteq> []" "\<not> valid_name (trim bad)"
  shows "statusCode (fst (handler (get_request bad) s)) = 400"
    and "statusCode (fst (handler (post_request bad a) s)) = 400"
  using assms
  by (auto simp: handler_def handle_request_def route_def get_request_def post_request_def
      request_params_def string_param_def valid_name_def respond_def Let_def)

text \<open>
  Claim C9. A request that carries no \<open>counterName\<close> (no such query parameter, no
  such field of the body, or no body at all) is answered exactly as the same request
  with the name \<open>default\<close> is, and on a working instance a GET without a name is
  answered 200 with the row named \<open>default\<close>, which the table then holds. A name is
  trimmed before validation and lookup: a request with the name \<open>n\<close> is answered
  exactly as the request with the name \<open>trim n\<close> is (for a name that is not white
  space only), so \<open>' home '\<close> and \<open>'home'\<close> address one counter. The counter
  addressed is the one named \<open>trim n\<close>: on a working instance, when \<open>trim n\<close> is
  valid, a GET for \<open>n\<close> is answered 200 with the row that the table then holds
  under \<open>trim n\<close>, at the count the database held for it (0 for a row it creates);
  an increment for \<open>n\<close> is answered 200 with that row at the count plus one; and
  neither changes the row of any other name. The validation is that of the trimmed
  name: a name that is not empty, and is empty or longer than 100 characters once
  trimmed, is answered 400.
\<close>

theorem default_name_and_trim:
  "(map_of qs ''counterName'' = None \<longrightarrow>
      handler (ev\<lparr>queryStringParameters := qs\<rparr>) s =
      handler (ev\<lparr>queryStringParameters := (''counterName'', ''default'') # qs\<rparr>) s) \<and>
   (map_of kvs ''counterName'' = None \<longrightarrow>
      handler (ev\<lparr>body := JsonBody (JObj kvs)\<rparr>) s =
      handler (ev\<lparr>body := JsonBody (JObj ((''counterName'', JStr ''default'') # kvs))\<rparr>) s) \<and>
   handler (ev\<lparr>body := NoBody\<rparr>) s =
     handler (ev\<lparr>body := JsonBody (JObj [(''counterName'', JStr ''default'')])\<rparr>) s \<and>
   (healthy s \<and> map_of qs ''counterName'' = None \<longrightarrow>
      (\<exists>r. fst (handler \<lparr>httpMethod = ''GET'', queryStringParameters = qs, body = b\<rparr> s) =
             respond 200 (row_json ''default'' r) \<and>
           stored_row ''default''
             (snd (handler \<lparr>httpMethod = ''GET'', queryStringParameters = qs, body = b\<rparr> s)) =
             Some r \<and>
           row_count r = stored_count ''default'' (db s))) \<and>
   (trim n \<noteq> [] \<longrightarrow>
      handler (ev\<lparr>queryStringParameters := (''counterName'', n) # qs\<rparr>) s =
      handler (ev\<lparr>queryStringParameters := (''counterName'', trim n) # qs\<rparr>) s \<and>
      handler (ev\<lparr>body := JsonBody (JObj ((''counterName'', JStr n) # kvs))\<rparr>) s =
      handler (ev\<lparr>body := JsonBody (JObj ((''counterName'', JStr (trim n)) # kvs))\<rparr>) s) \<and>
   (healthy s \<and> valid_name (trim n) \<longrightarrow>
      (\<exists>r. fst (handler (get_request n) s) = respond 200 (row_json (trim n) r) \<and>
           stored_row (trim n) (snd (handler (get_request n) s)) = Some r \<and>
           row_count r = stored_count (trim n) (db s)) \<and>
      (\<exists>r. fst (handler (post_request n ''increment'') s) =
             respond 200 (row_json (trim n) r) \<and>
           stored_row (trim n) (snd (handler (post_request n ''increment'') s)) = Some r \<and>
           row_count r = stored_count (trim n) (db s) + 1) \<and>
      (\<forall>m. m \<noteq> trim n \<longrightarrow>
           stored_row m (snd (handler (get_request n) s)) = stored_row m s \<and>
           stored_row m (snd (handler (post_request n ''increment'') s)) = stored_row m s)) \<and>
   (bad \<noteq> [] \<and> \<not> valid_name (trim bad) \<longrightarrow>
      statusCode (fst (handler (get_request bad) s)) = 400 \<and>
      statusCode (fst (handler (post_request bad a) s)) = 400) \<and>
   handler (get_request '' home '') s = handler (get_request ''home'') s \<and>
   handler (post_request '' home '' a) s = handler (post_request ''home'' a) s"
proof (intro conjI impI)
  assume "map_of qs ''counterName'' = None"
  then show "handler (ev\<lparr>queryStringParameters := qs\<rparr>) s =
      handler (ev\<lparr>queryStringParameters := (''counterName'', ''default'') # qs\<rparr>) s"
    by (rule query_default)
next
  assume "map_of kvs ''counterName'' = None"
  then show "handler (ev\<lparr>body := JsonBody (JObj kvs)\<rparr>) s =
      handler (ev\<lparr>body := JsonBody (JObj ((''counterName'', JStr ''default'') # kvs))\<rparr>) s"
    by (rule body_default)
next
  have "handler (ev\<lparr>body := NoBody\<rparr>) s = handler (ev\<lparr>body := JsonBody (JObj [])\<rparr>) s"
    by (simp add: handler_def handle_request_def request_params_def Let_def
        cong: option.case_cong sum.case_cong)
  also have "\<dots> =
      handler (ev\<lparr>body := JsonBody (JObj [(''counterName'', JStr ''default'')])\<rparr>) s"
    by (rule body_default) simp
  finally show "handler (ev\<lparr>body := NoBody\<rparr>) s =
      handler (ev\<lparr>body := JsonBody (JObj [(''counterName'', JStr ''default'')])\<rparr>) s" .
next
  assume a: "healthy s \<and> map_of qs ''counterName'' = None"
  let ?ev = "\<lparr>httpMethod = ''GET'', queryStringParameters = qs, body = b\<rparr>"
  have v: "valid_name (trim ''default'')"
    by (simp add: valid_name_def trim_literals)
  have "handle_request ?ev s = get_branch ''default'' (initTable s)"
    using a
    by (simp add: handle_request_def request_params_def string_param_query route_def
        trim_literals Let_def)
  then have "handle_request ?ev s = handle_request (get_request ''default'') s"
    by (simp add: handle_empty_name)
  then have eq: "handler ?ev s = handler (get_request ''default'') s"
    by (rule handler_cong)
  have a1: "healthy s"
    using a by simp
  show "\<exists>r. fst (handler ?ev s) = respond 200 (row_json ''default'' r) \<and>
      stored_row ''default'' (snd (handler ?ev s)) = Some r \<and>
      row_count r = stored_count ''default'' (db s)"
    using handler_get_addressed(1)[OF a1 v] by (simp add: eq trim_literals)
next
  assume t: "trim n \<noteq> []"
  show "handler (ev\<lparr>queryStringParameters := (''counterName'', n) # qs\<rparr>) s =
      handler (ev\<lparr>queryStringParameters := (''counterName'', trim n) # qs\<rparr>) s"
    using t by (rule query_trim)
  show "handler (ev\<lparr>body := JsonBody (JObj ((''counterName'', JStr n) # kvs))\<rparr>) s =
      handler (ev\<lparr>body := JsonBody (JObj ((''counterName'', JStr (trim n)) # kvs))\<rparr>) s"
    using t by (rule body_trim)
next
  assume a: "healthy s \<and> valid_name (trim n)"
  then have h: "healthy s" and v: "valid_name (trim n)"
    by simp_all
  show "\<exists>r. fst (handler (get_request n) s) = respond 200 (row_json (trim n) r) \<and>
      stored_row (trim n) (snd (handler (get_request n) s)) = Some r \<and>
      row_count r = stored_count (trim n) (db s)"
    by (rule handler_get_addressed(1)[OF h v])
  show "\<exists>r. fst (handler (post_request n ''increment'') s) =
        respond 200 (row_json (trim n) r) \<and>
      stored_row (trim n) (snd (handler (post_request n ''increment'') s)) = Some r \<and>
      row_count r = stored_count (trim n) (db s) + 1"
    by (rule handler_increment(1)[OF h v])
  show "\<forall>m. m \<noteq> trim n \<longrightarrow>
      stored_row m (snd (handler (get_request n) s)) = stored_row m s \<and>
      stored_row m (snd (handler (post_request n ''increment'') s)) = stored_row m s"
    using handler_get_addressed(2)[OF h v] handler_increment(3)[OF h v] by blast
next
  assume a: "bad \<noteq> [] \<and> \<not> valid_name (trim bad)"
  then show "statusCode (fst (handler (get_request bad) s)) = 400"
    using handler_rejects_name(1) by blast
  from a show "statusCode (fst (handler (post_request bad a) s)) = 400"
    using handler_rejects_name(2) by blast
next
  have h: "trim '' home '' = ''home''" "trim '' home '' \<noteq> []"
    by (simp_all add: trim_def is_space_def)
  show "handler (get_request '' home '') s = handler (get_request ''home'') s"
    using query_trim[where n = "'' home ''" and ev = "get_request []" and qs = "[]" and s = s]
    by (simp add: h get_request_def)
  show "handler (post_request '' home '' a) s = handler (post_request ''home'' a) s"
    by (intro handler_cong handle_request_cong[where
          p = "JObj [(''action'', JStr a), (''counterName'', JStr '' home '')]" and
          p' = "JObj [(''action'', JStr a), (''counterName'', JStr ''home'')]"])
       (simp_all add: request_params_def post_request_def string_param_def h trim_def
          is_space_def)
qed

text \<open>
  The default name, the trimming and the validation at concrete requests against a
  function that was never called before: a GET without a name is answered with the
  row \<open>default\<close>, an increment for \<open>' home '\<close> with the row \<open>home\<close> at count 1, and a
  GET for a name of one space with 400.
\<close>

theorem default_name_and_trim_witness:
  "map_of ([] :: (string \<times> string) list) ''counterName'' = None \<and>
   map_of ([] :: (string \<times> json) list) ''counterName'' = None \<and>
   healthy fresh_server \<and>
   trim '' home '' \<noteq> [] \<and>
   valid_name (trim '' home '') \<and>
   '' '' \<noteq> [] \<and> \<not> valid_name (trim '' '') \<and>
   handler ((get_request [])\<lparr>queryStringParameters := []\<rparr>) fresh_server =
     handler ((get_request [])\<lparr>queryStringParameters := [(''counterName'', ''default'')]\<rparr>)
       fresh_server \<and>
   (\<exists>r. fst (handler \<lparr>httpMethod = ''GET'', queryStringParameters = [], body = NoBody\<rparr>
            fresh_server) = respond 200 (row_json ''default'' r)) \<and>
   handler ((get_request [])\<lparr>queryStringParameters := [(''counterName'', '' home '')]\<rparr>)
       fresh_server =
     handler ((get_request [])\<lparr>queryStringParameters :=
       [(''counterName'', trim '' home '')]\<rparr>) fresh_server \<and>
   (\<exists>r. fst (handler (post_request '' home '' ''increment'') fresh_server) =
          respond 200 (row_json ''home'' r) \<and>
        stored_row ''home'' (snd (handler (post_request '' home '' ''increment'') fresh_server))
          = Some r \<and>
        row_count r = 1) \<and>
   statusCode (fst (handler (get_request '' '') fresh_server)) = 400"
proof -
  have h: "map_of ([] :: (string \<times> string) list) ''counterName'' = None"
    "map_of ([] :: (string \<times> json) list) ''counterName'' = None"
    "healthy fresh_server" "trim '' home '' \<noteq> []" "valid_name (trim '' home '')"
    "'' '' \<noteq> []" "\<not> valid_name (trim '' '')"
    "trim '' home '' = ''home''" "stored_count ''home'' (db fresh_server) = 0"
    by (simp_all add: healthy_def fresh_server_def fresh_store_def trim_def is_space_def
        valid_name_def stored_count_def)
  from default_name_and_trim[where qs = "[]" and kvs = "[]" and s = fresh_server and
      ev = "get_request []" and n = "'' home ''" and b = NoBody and a = "''increment''" and
      bad = "'' ''"] h
  show ?thesis
    by auto
qed

subsection \<open>Reading a counter\<close>






subsection \<open>Resetting a counter\<close>

lemma handler_reset_present:
  assumes "healthy s" "valid_name (trim raw)" "stored_row (trim raw) s = Some r"
  shows "fst (handler (post_request raw ''reset'') s) =
           respond 200 (row_json (trim raw)
             (r\<lparr>row_count := 0, updated_at := current_timestamp (db s)\<rparr>))"
    and "healthy (snd (handler (post_request raw ''reset'') s))"
    and "stored_row (trim raw) (snd (handler (post_request raw ''reset'') s)) =
           Some (r\<lparr>row_count := 0, updated_at := current_timestamp (db s)\<rparr>)"
proof -
  let ?s1 = "initTable s"
  let ?r = "r\<lparr>row_count := 0, updated_at := current_timestamp (db s)\<rparr>"
  have r1: "ready ?s1" and t1: "table_init_cache ?s1"
    and st: "\<And>k. stored_row k ?s1 = stored_row k s"
    and ts: "current_timestamp (db ?s1) = current_timestamp (db s)"
    using initTable_healthy[OF assms(1)] by auto
  have pres: "stored_row (trim raw) ?s1 = Some r"
    using assms(3) st by simp
  note rb = reset_branch_present[OF r1 pres]
  have h: "handler (post_request raw ''reset'') s =
      (respond 200 (row_json (trim raw) ?r), snd (reset_branch (trim raw) ?s1))"
    using rb(1) ts
      handler_Inr[of "post_request raw ''reset''" s "respond 200 (row_json (trim raw) ?r)"]
    by (simp add: handle_reset_valid[OF assms(2)])
  show "fst (handler (post_request raw ''reset'') s) = respond 200 (row_json (trim raw) ?r)"
    by (simp add: h)
  show "healthy (snd (handler (post_request raw ''reset'') s))"
    using rb(2) rb(4) t1 by (simp add: h healthy_after)
  show "stored_row (trim raw) (snd (handler (post_request raw ''reset'') s)) = Some ?r"
    using rb(3) ts by (simp add: h)
qed

lemma handler_reset_absent:
  assumes "healthy s" "valid_name (trim raw)" "stored_row (trim raw) s = None"
  shows "fst (handler (post_request raw ''reset'') s) =
           respond 200 (JObj [(''name'', JStr (trim raw)), (''count'', JNum 0)])"
    and "healthy (snd (handler (post_request raw ''reset'') s))"
    and "stored_row (trim raw) (snd (handler (post_request raw ''reset'') s)) = None"
proof -
  let ?s1 = "initTable s"
  let ?j = "JObj [(''name'', JStr (trim raw)), (''count'', JNum 0)]"
  have r1: "ready ?s1" and t1: "table_init_cache ?s1"
    and st: "\<And>k. stored_row k ?s1 = stored_row k s"
    using initTable_healthy[OF assms(1)] by auto
  have abs: "stored_row (trim raw) ?s1 = None"
    using assms(3) st by simp
  note rb = reset_branch_absent[OF r1 abs]
  have h: "handler (post_request raw ''reset'') s =
      (respond 200 ?j, snd (reset_branch (trim raw) ?s1))"
    using rb(1) handler_Inr[of "post_request raw ''reset''" s "respond 200 ?j"]
    by (simp add: handle_reset_valid[OF assms(2)])
  show "fst (handler (post_request raw ''reset'') s) = respond 200 ?j"
    by (simp add: h)
  show "healthy (snd (handler (post_request raw ''reset'') s))"
    using rb(2) rb(4) t1 by (simp add: h healthy_after)
  show "stored_row (trim raw) (snd (handler (post_request raw ''reset'') s)) = None"
    using rb(3)[of "trim raw"] abs by (simp add: h)
qed

lemma reply_count_synthetic:
  "reply_count (respond c (JObj [(''name'', JStr n), (''count'', JNum 0)])) = Some 0"
  by (simp add: reply_count_def respond_def count_of_def)

text \<open>
  Claim C6. On a working instance and for a name that is valid once trimmed, reset
  sets the count of an existing row to 0 and replies the updated row; when there is
  no row it replies the record \<open>{name, count: 0}\<close> and creates none; and in both
  cases the GET that follows replies count 0.
\<close>

theorem reset_then_get:
  assumes "healthy s" and "valid_name (trim raw)"
  shows "statusCode (fst (handler (post_request raw ''reset'') s)) = 200 \<and>
         reply_count (fst (handler (post_request raw ''reset'') s)) = Some 0 \<and>
         statusCode (fst (handler (get_request raw)
            (snd (handler (post_request raw ''reset'') s)))) = 200 \<and>
         reply_count (fst (handler (get_request raw)
            (snd (handler (post_request raw ''reset'') s)))) = Some 0 \<and>
         (case stored_row (trim raw) s of
            Some r0 \<Rightarrow>
              reply (fst (handler (post_request raw ''reset'') s)) =
                Some (row_json (trim raw)
                  (r0\<lparr>row_count := 0, updated_at := current_timestamp (db s)\<rparr>)) \<and>
              stored_row (trim raw) (snd (handler (post_request raw ''reset'') s)) =
                Some (r0\<lparr>row_count := 0, updated_at := current_timestamp (db s)\<rparr>)
          | None \<Rightarrow>
              reply (fst (handler (post_request raw ''reset'') s)) =
                Some (JObj [(''name'', JStr (trim raw)), (''count'', JNum 0)]) \<and>
              stored_row (trim raw) (snd (handler (post_request raw ''reset'') s)) = None)"
proof (cases "stored_row (trim raw) s")
  case (Some r0)
  let ?s1 = "snd (handler (post_request raw ''reset'') s)"
  let ?r = "r0\<lparr>row_count := 0, updated_at := current_timestamp (db s)\<rparr>"
  note rp = handler_reset_present[OF assms Some]
  have g: "fst (handler (get_request raw) ?s1) = respond 200 (row_json (trim raw) ?r)"
    by (rule handler_get_present(1)[OF rp(2) assms(2) rp(3)])
  show ?thesis
    using rp(1) rp(3) g Some
    by (simp add: reply_count_row) (simp add: respond_def)
next
  case None
  let ?s1 = "snd (handler (post_request raw ''reset'') s)"
  note ra = handler_reset_absent[OF assms None]
  from handler_get_absent(1)[OF ra(2) assms(2) ra(3)] obtain r where
    r: "fst (handler (get_request raw) ?s1) = respond 200 (row_json (trim raw) r)"
      "row_count r = 0"
    by blast
  show ?thesis
    using ra(1) ra(3) r None
    by (simp add: reply_count_row reply_count_synthetic) (simp add: respond_def)
qed

theorem reset_then_get_witness:
  "healthy fresh_server \<and> valid_name (trim ''home'') \<and>
   reply_count (fst (handler (post_request ''home'' ''reset'') fresh_server)) = Some 0 \<and>
   reply_count (fst (handler (get_request ''home'')
      (snd (handler (post_request ''home'' ''reset'') fresh_server)))) = Some 0 \<and>
   stored_row (trim ''home'') (snd (handler (post_request ''home'' ''reset'') fresh_server))
     = None"
  using reset_then_get[of fresh_server "''home''"]
  by (simp add: healthy_def valid_name_def stored_row_def fresh_server_def fresh_store_def
      trim_def is_space_def)

subsection \<open>Concurrent increments\<close>

lemma sum_list_map_update:
  fixes f :: "'a \<Rightarrow> int"
  shows "i < length xs \<Longrightarrow>
         (\<Sum>x\<leftarrow>xs[i := y]. f x) = (\<Sum>x\<leftarrow>xs. f x) - f (xs ! i) + f y"
proof (induction xs arbitrary: i)
  case Nil
  then show ?case by simp
next
  case (Cons a xs)
  then show ?case by (cases i) auto
qed

lemma process_ok_mono: "process_ok n tbl p \<Longrightarrow> (tbl \<longrightarrow> tbl') \<Longrightarrow> process_ok n tbl' p"
  by (auto simp: process_ok_def split: phase.splits)

lemma task_distinct:
  "increment_task n \<noteq> Done x" "insert_task n \<noteq> Done x"
  by (simp_all add: increment_task_def insert_task_def)

text \<open>
  One step of a process that is in order: the database still answers, the table is
  not lost, the process is in order again, and the count of the name grows by one
  exactly when the step produces the reply.
\<close>

lemma step_process_count:
  assumes "reachable d" "process_ok n (counters d \<noteq> None) p"
    and "step_process n p d = (p', d')"
  shows "reachable d'"
    and "counters d \<noteq> None \<longrightarrow> counters d' \<noteq> None"
    and "process_ok n (counters d' \<noteq> None) p'"
    and "stored_count n d' + (if answered p then 1 else 0) =
         stored_count n d + (if answered p' then 1 else 0)"
proof -
  obtain s ph where p: "p = (s, ph)"
    by (cases p)
  have cc: "client s \<longrightarrow> connected s"
    using assms(2) by (simp add: p process_ok_def)
  consider (arrived) "ph = Arrived"
    | (update) "ph = Running (increment_task n)" "counters d \<noteq> None"
    | (insert) "ph = Running (insert_task n)" "counters d \<noteq> None"
    | (replied) r where "ph = Running (Done (Inr (respond 200 (row_json n r))))"
        "counters d \<noteq> None"
    using assms(2) by (auto simp: p process_ok_def split: phase.splits)
  then have "reachable d' \<and> (counters d \<noteq> None \<longrightarrow> counters d' \<noteq> None) \<and>
      process_ok n (counters d' \<noteq> None) p' \<and>
      stored_count n d' + (if answered p then 1 else 0) =
      stored_count n d + (if answered p' then 1 else 0)"
  proof cases
    case arrived
    let ?s0 = "s\<lparr>db := d\<rparr>"
    have h: "healthy ?s0"
      using assms(1,2) by (simp add: healthy_def p arrived process_ok_def)
    note it = initTable_healthy[OF h]
    have p': "p' = (initTable ?s0, Running (increment_task n))" and d': "d' = db (initTable ?s0)"
      using assms(3) by (simp_all add: p arrived Let_def)
    have "stored_count n d' = stored_count n d"
      using it(2)[of n] stored_count_row[of n ?s0] stored_count_row[of n "initTable ?s0"]
      by (simp add: d')
    moreover have "\<not> answered p" "\<not> answered p'"
      by (simp_all add: answered_def p p' arrived task_distinct increment_task_def)
    moreover have "counters d' \<noteq> None" "reachable d'"
      "client (initTable ?s0) \<longrightarrow> connected (initTable ?s0)"
      using it(1) by (simp_all add: d' ready_def)
    ultimately show ?thesis
      by (simp add: p' process_ok_def)
  next
    case update
    then show ?thesis
      using assms(1,3) cc
      by (auto simp: p increment_task_def insert_task_def executeQuery_ready pg_query_def
          process_ok_def answered_def stored_count_def Let_def put_row_def
          split: option.splits prod.splits sum.splits list.splits)
  next
    case insert
    then show ?thesis
      using assms(1,3) cc
      by (auto simp: p insert_task_def executeQuery_ready pg_query_def
          process_ok_def answered_def stored_count_def Let_def put_row_def new_row_def
          split: option.splits prod.splits sum.splits list.splits)
  next
    case replied
    then show ?thesis
      using assms(1,2,3) by (auto simp: p answered_def)
  qed
  then show "reachable d'" and "counters d \<noteq> None \<longrightarrow> counters d' \<noteq> None"
    and "process_ok n (counters d' \<noteq> None) p'"
    and "stored_count n d' + (if answered p then 1 else 0) =
         stored_count n d + (if answered p' then 1 else 0)"
    by simp_all
qed

lemma interleave_count:
  "reachable d \<Longrightarrow> \<forall>p \<in> set ps. process_ok n (counters d \<noteq> None) p \<Longrightarrow>
   interleave n sched (ps, d) = (ps', d') \<Longrightarrow>
   length ps' = length ps \<and>
   (\<forall>p \<in> set ps'. process_ok n (counters d' \<noteq> None) p) \<and>
   stored_count n d' + answered_count ps = stored_count n d + answered_count ps'"
proof (induction sched arbitrary: ps d)
  case Nil
  then show ?case by simp
next
  case (Cons i sched)
  show ?case
  proof (cases "i < length ps")
    case False
    with Cons.prems have "interleave n sched (ps, d) = (ps', d')" by simp
    from Cons.IH[OF Cons.prems(1,2) this] show ?thesis .
  next
    case True
    obtain p1 d1 where st: "step_process n (ps ! i) d = (p1, d1)"
      by (cases "step_process n (ps ! i) d")
    with True Cons.prems have run: "interleave n sched (ps[i := p1], d1) = (ps', d')"
      by simp
    have ok_i: "process_ok n (counters d \<noteq> None) (ps ! i)"
      using Cons.prems(2) True by simp
    note sc = step_process_count[OF Cons.prems(1) ok_i st]
    have ok1: "\<forall>p \<in> set (ps[i := p1]). process_ok n (counters d1 \<noteq> None) p"
    proof
      fix p assume "p \<in> set (ps[i := p1])"
      then have "p = p1 \<or> p \<in> set ps"
        using set_update_subset_insert[of ps i p1] by blast
      then show "process_ok n (counters d1 \<noteq> None) p"
      proof
        assume "p = p1"
        then show ?thesis using sc(3) by simp
      next
        assume "p \<in> set ps"
        then have "process_ok n (counters d \<noteq> None) p"
          using Cons.prems(2) by blast
        then show ?thesis using sc(2) by (rule process_ok_mono)
      qed
    qed
    from Cons.IH[OF sc(1) ok1 run] have
      len: "length ps' = length ps" and
      ok': "\<forall>p \<in> set ps'. process_ok n (counters d' \<noteq> None) p" and
      cnt: "stored_count n d' + answered_count (ps[i := p1]) =
            stored_count n d1 + answered_count ps'"
      by simp_all
    have upd: "answered_count (ps[i := p1]) =
        answered_count ps - (if answered (ps ! i) then 1 else 0) +
        (if answered p1 then 1 else 0)"
      unfolding answered_count_def using True by (rule sum_list_map_update)
    have "stored_count n d' + answered_count ps = stored_count n d + answered_count ps'"
      using cnt upd sc(4) by linarith
    with len ok' show ?thesis
      by simp
  qed
qed

lemma answered_count_all:
  "\<forall>p \<in> set ps. answered p \<Longrightarrow> answered_count ps = int (length ps)"
  by (induction ps) (auto simp: answered_count_def)

lemma answered_count_arrived: "answered_count (map (\<lambda>s. (s, Arrived)) xs) = 0"
  by (induction xs) (auto simp: answered_count_def answered_def)

text \<open>
  A process that runs alone, from an instance with its own database, is the body of
  the handler: after three steps it stands at the result of \<open>handle_request\<close>, on the
  instance and the database that \<open>handle_request\<close> leaves.
\<close>

lemma process_alone:
  assumes "valid_name (trim raw)"
  shows "interleave (trim raw) [0, 0, 0] ([(s, Arrived)], db s) =
           (case handle_request (post_request raw ''increment'') s of
              (x, s') \<Rightarrow> ([(s', Running (Done x))], db s'))"
proof -
  have same: "\<And>t. t\<lparr>db := db t\<rparr> = t"
    by simp
  show ?thesis
    by (auto simp: handle_increment_valid[OF assms] increment_branch_def increment_task_def
        insert_task_def Let_def same split: prod.splits sum.splits list.splits)
qed

text \<open>
  A step of a process that is in order uses up one of the turns it needs.
\<close>

lemma step_process_turns:
  assumes "process_ok n tbl p" "step_process n p d = (p', d')"
  shows "turns_left (snd p') \<le> turns_left (snd p) - 1"
proof -
  obtain s ph where p: "p = (s, ph)"
    by (cases p)
  consider (arrived) "ph = Arrived"
    | (update) "ph = Running (increment_task n)"
    | (insert) "ph = Running (insert_task n)"
    | (replied) r where "ph = Running (Done (Inr (respond 200 (row_json n r))))"
    using assms(1) by (auto simp: p process_ok_def split: phase.splits)
  then show ?thesis
  proof cases
    case arrived
    then show ?thesis
      using assms(2) by (auto simp: p Let_def increment_task_def)
  next
    case update
    then show ?thesis
      using assms(2)
      by (auto simp: p increment_task_def insert_task_def
          split: prod.splits sum.splits list.splits)
  next
    case insert
    then show ?thesis
      using assms(2)
      by (auto simp: p insert_task_def split: prod.splits sum.splits list.splits)
  next
    case replied
    then show ?thesis
      using assms(2) by (auto simp: p)
  qed
qed

lemma turns_left_answered: "turns_left (snd p) = 0 \<Longrightarrow> answered p"
  by (cases "snd p" rule: turns_left.cases) (auto simp: answered_def split: query.splits)

text \<open>
  A schedule that gives every process the turns it still needs leaves every request
  answered.
\<close>

lemma interleave_progress:
  "reachable d \<Longrightarrow> \<forall>p \<in> set ps. process_ok n (counters d \<noteq> None) p \<Longrightarrow>
   interleave n sched (ps, d) = (ps', d') \<Longrightarrow>
   \<forall>i < length ps. turns_left (snd (ps ! i)) \<le> count_list sched i \<Longrightarrow>
   \<forall>p \<in> set ps'. answered p"
proof (induction sched arbitrary: ps d)
  case Nil
  then have "ps' = ps" by simp
  moreover have "answered p" if "p \<in> set ps" for p
  proof -
    from that obtain i where "i < length ps" "ps ! i = p"
      by (auto simp: in_set_conv_nth)
    with Nil.prems(4) have "turns_left (snd p) = 0"
      by auto
    then show ?thesis by (rule turns_left_answered)
  qed
  ultimately show ?case by blast
next
  case (Cons i sched)
  show ?case
  proof (cases "i < length ps")
    case False
    with Cons.prems have run: "interleave n sched (ps, d) = (ps', d')" by simp
    have "\<forall>j < length ps. turns_left (snd (ps ! j)) \<le> count_list sched j"
      using Cons.prems(4) False by auto
    from Cons.IH[OF Cons.prems(1,2) run this] show ?thesis .
  next
    case True
    obtain p1 d1 where st: "step_process n (ps ! i) d = (p1, d1)"
      by (cases "step_process n (ps ! i) d")
    with True Cons.prems have run: "interleave n sched (ps[i := p1], d1) = (ps', d')"
      by simp
    have ok_i: "process_ok n (counters d \<noteq> None) (ps ! i)"
      using Cons.prems(2) True by simp
    note sc = step_process_count[OF Cons.prems(1) ok_i st]
    have ok1: "\<forall>p \<in> set (ps[i := p1]). process_ok n (counters d1 \<noteq> None) p"
    proof
      fix p assume "p \<in> set (ps[i := p1])"
      then have "p = p1 \<or> p \<in> set ps"
        using set_update_subset_insert[of ps i p1] by blast
      then show "process_ok n (counters d1 \<noteq> None) p"
      proof
        assume "p = p1"
        then show ?thesis using sc(3) by simp
      next
        assume "p \<in> set ps"
        then have "process_ok n (counters d \<noteq> None) p"
          using Cons.prems(2) by blast
        then show ?thesis using sc(2) by (rule process_ok_mono)
      qed
    qed
    have t1: "turns_left (snd p1) \<le> turns_left (snd (ps ! i)) - 1"
      using ok_i st by (rule step_process_turns)
    have turns: "\<forall>j < length (ps[i := p1]).
        turns_left (snd (ps[i := p1] ! j)) \<le> count_list sched j"
    proof (intro allI impI)
      fix j assume j: "j < length (ps[i := p1])"
      show "turns_left (snd (ps[i := p1] ! j)) \<le> count_list sched j"
      proof (cases "j = i")
        case True
        have "turns_left (snd (ps ! i)) \<le> count_list (i # sched) i"
          using Cons.prems(4) \<open>i < length ps\<close> by blast
        with t1 True j show ?thesis
          by simp
      next
        case False
        have "turns_left (snd (ps ! j)) \<le> count_list (i # sched) j"
          using Cons.prems(4) j by simp
        with False show ?thesis
          by simp
      qed
    qed
    from Cons.IH[OF sc(1) ok1 run turns] show ?thesis .
  qed
qed

lemma interleave_no_process: "interleave n sched ([], d) = ([], d)"
  by (induction sched) simp_all

text \<open>
  Claim C8. \<open>N\<close> increment requests for one valid name, each served by an instance of
  the function with globals of its own (any mix of cold and warm instances that
  work), all on one database, run concurrently: every request is the handler's
  own sequence \<open>initTable\<close>, \<open>UPDATE ... SET count = count + 1\<close>, and the upsert when
  no row matched, and the requests are interleaved at their \<open>await\<close>s in any order,
  a schedule. Every schedule that gives each request three turns leaves every
  request answered. Once every request has its reply, the count of the name is the
  count before plus \<open>N\<close>, so exactly \<open>N\<close> for a counter that was freshly created
  (count 0) or did not exist, and every request was answered 200 with a row. No
  increment is lost because each statement is atomic and adds one in the database;
  nothing is read and written back. The process is the handler: run alone it ends
  with the result and the state of \<open>handle_request\<close>, and on a working instance the
  handler answers an increment with 200 and leaves the count one higher.
\<close>

theorem concurrent_increments:
  assumes valid: "valid_name (trim raw)"
    and inst: "\<forall>s \<in> set instances. healthy (s\<lparr>db := d\<rparr>)"
    and run: "interleave (trim raw) sched (map (\<lambda>s. (s, Arrived)) instances, d) = (ps, d')"
  shows "((\<forall>i < length instances. 3 \<le> count_list sched i) \<longrightarrow> (\<forall>p \<in> set ps. answered p)) \<and>
         ((\<forall>p \<in> set ps. answered p) \<longrightarrow>
            stored_count (trim raw) d' = stored_count (trim raw) d + int (length instances) \<and>
            (stored_count (trim raw) d = 0 \<longrightarrow>
               stored_count (trim raw) d' = int (length instances)) \<and>
            (\<forall>p \<in> set ps.
               \<exists>r. snd p = Running (Done (Inr (respond 200 (row_json (trim raw) r)))))) \<and>
         length ps = length instances \<and>
         (\<forall>s. interleave (trim raw) [0, 0, 0] ([(s, Arrived)], db s) =
            (case handle_request (post_request raw ''increment'') s of
               (x, s') \<Rightarrow> ([(s', Running (Done x))], db s'))) \<and>
         (\<forall>s. healthy s \<longrightarrow>
            statusCode (fst (handler (post_request raw ''increment'') s)) = 200 \<and>
            stored_count (trim raw) (db (snd (handler (post_request raw ''increment'') s))) =
              stored_count (trim raw) (db s) + 1)"
proof -
  let ?n = "trim raw"
  let ?ps0 = "map (\<lambda>s. (s, Arrived)) instances"
  have main: "((\<forall>i < length instances. 3 \<le> count_list sched i) \<longrightarrow>
        (\<forall>p \<in> set ps. answered p)) \<and>
      ((\<forall>p \<in> set ps. answered p) \<longrightarrow>
        stored_count ?n d' = stored_count ?n d + int (length instances) \<and>
        (\<forall>p \<in> set ps. \<exists>r. snd p = Running (Done (Inr (respond 200 (row_json ?n r)))))) \<and>
      length ps = length instances"
  proof (cases "instances = []")
    case True
    then show ?thesis
      using run by (simp add: interleave_no_process)
  next
    case False
    then obtain s0 where "s0 \<in> set instances"
      by (cases instances) auto
    then have re: "reachable d"
      using inst by (auto simp: healthy_def)
    have ok: "\<forall>p \<in> set ?ps0. process_ok ?n (counters d \<noteq> None) p"
      using inst by (auto simp: process_ok_def healthy_def)
    from interleave_count[OF re ok run] have
      len: "length ps = length ?ps0" and
      ok': "\<forall>p \<in> set ps. process_ok ?n (counters d' \<noteq> None) p" and
      cnt: "stored_count ?n d' + answered_count ?ps0 = stored_count ?n d + answered_count ps"
      by simp_all
    have progress: "\<forall>p \<in> set ps. answered p"
      if "\<forall>i < length instances. 3 \<le> count_list sched i"
    proof -
      have "\<forall>i < length ?ps0. turns_left (snd (?ps0 ! i)) \<le> count_list sched i"
        using that by simp
      with re ok run show ?thesis
        by (rule interleave_progress)
    qed
    have total: "stored_count ?n d' = stored_count ?n d + int (length instances) \<and>
        (\<forall>p \<in> set ps. \<exists>r. snd p = Running (Done (Inr (respond 200 (row_json ?n r)))))"
      if fin: "\<forall>p \<in> set ps. answered p"
    proof -
      have "answered_count ps = int (length ps)"
        using fin by (rule answered_count_all)
      with cnt len have c: "stored_count ?n d' = stored_count ?n d + int (length instances)"
        by (simp add: answered_count_arrived)
      have "\<exists>r. snd p = Running (Done (Inr (respond 200 (row_json ?n r))))"
        if "p \<in> set ps" for p
      proof -
        have "process_ok ?n (counters d' \<noteq> None) p" "answered p"
          using that ok' fin by blast+
        then show ?thesis
          by (auto simp: process_ok_def answered_def increment_task_def insert_task_def
              split: phase.splits)
      qed
      with c show ?thesis
        by simp
    qed
    from progress total len show ?thesis
      by simp
  qed
  have alone: "\<forall>s. interleave ?n [0, 0, 0] ([(s, Arrived)], db s) =
      (case handle_request (post_request raw ''increment'') s of
         (x, s') \<Rightarrow> ([(s', Running (Done x))], db s'))"
    using process_alone[OF valid] by blast
  have one: "statusCode (fst (handler (post_request raw ''increment'') s)) = 200 \<and>
      stored_count ?n (db (snd (handler (post_request raw ''increment'') s))) =
        stored_count ?n (db s) + 1" if "healthy s" for s
  proof -
    from handler_increment(1)[OF that valid] obtain r where
      r: "fst (handler (post_request raw ''increment'') s) = respond 200 (row_json ?n r)"
        "stored_row ?n (snd (handler (post_request raw ''increment'') s)) = Some r"
        "row_count r = stored_count ?n (db s) + 1"
      by blast
    show ?thesis
      using r stored_count_row[of ?n "snd (handler (post_request raw ''increment'') s)"]
      by (simp add: respond_def)
  qed
  from main alone one show ?thesis
    by simp
qed

text \<open>
  Three cold instances on a database without the table, taken in turn at every
  \<open>await\<close>: each creates the table if it is missing, each finds no row to update,
  and the three upserts leave the count 3.
\<close>

theorem concurrent_increments_witness:
  "valid_name (trim ''home'') \<and>
   healthy (fresh_server\<lparr>db := fresh_store\<rparr>) \<and>
   3 \<le> count_list [0, 1, 2, 0, 1, 2, 0, 1, 2] (0 :: nat) \<and>
   3 \<le> count_list [0, 1, 2, 0, 1, 2, 0, 1, 2] (1 :: nat) \<and>
   3 \<le> count_list [0, 1, 2, 0, 1, 2, 0, 1, 2] (2 :: nat) \<and>
   stored_count (trim ''home'') fresh_store = 0 \<and>
   list_all answered
     (fst (interleave (trim ''home'') [0, 1, 2, 0, 1, 2, 0, 1, 2]
        (map (\<lambda>s. (s, Arrived)) [fresh_server, fresh_server, fresh_server], fresh_store))) \<and>
   stored_count (trim ''home'')
     (snd (interleave (trim ''home'') [0, 1, 2, 0, 1, 2, 0, 1, 2]
        (map (\<lambda>s. (s, Arrived)) [fresh_server, fresh_server, fresh_server], fresh_store)))
     = 3"
proof -
  let ?sched = "[0, 1, 2, 0, 1, 2, 0, 1, 2] :: nat list"
  let ?run = "interleave (trim ''home'') ?sched
    (map (\<lambda>s. (s, Arrived)) [fresh_server, fresh_server, fresh_server], fresh_store)"
  have v: "valid_name (trim ''home'')"
    by code_simp
  have h: "healthy (fresh_server\<lparr>db := fresh_store\<rparr>)"
    by code_simp
  have z: "stored_count (trim ''home'') fresh_store = 0"
    by code_simp
  have t: "3 \<le> count_list ?sched 0" "3 \<le> count_list ?sched 1" "3 \<le> count_list ?sched 2"
    by simp_all
  then have turns: "\<forall>i < length [fresh_server, fresh_server, fresh_server].
      3 \<le> count_list ?sched i"
    by (simp add: less_Suc_eq)
  note at_run = concurrent_increments[where raw = "''home''" and
      instances = "[fresh_server, fresh_server, fresh_server]" and d = fresh_store and
      sched = ?sched and ps = "fst ?run" and d' = "snd ?run"]
  have a: "\<forall>p \<in> set (fst ?run). answered p"
    using at_run v h turns by simp
  then have "stored_count (trim ''home'') (snd ?run) = 3"
    using at_run v h z by simp
  with v h z t a show ?thesis
    by (simp add: list_all_iff)
qed

section \<open>Properties of the widget\<close>

subsection \<open>Replies of the function\<close>

lemma executeQuery_insert_rows:
  "executeQuery (InsertZero n) s = (Inr rs, s') \<Longrightarrow> rs \<noteq> []"
  "executeQuery (InsertOne n) s = (Inr rs, s') \<Longrightarrow> rs \<noteq> []"
  by (auto simp: executeQuery_def ensureConnected_def connect_client_def pg_query_def Let_def
      split: prod.splits sum.splits option.splits if_splits)

lemma branch_replies:
  "fst (get_branch n s) = Inr r \<Longrightarrow> statusCode r = 200 \<and> (\<exists>kvs. reply r = Some (JObj kvs))"
  "fst (increment_branch n s) = Inr r \<Longrightarrow>
     statusCode r = 200 \<and> (\<exists>kvs. reply r = Some (JObj kvs))"
  "fst (reset_branch n s) = Inr r \<Longrightarrow> statusCode r = 200 \<and> (\<exists>kvs. reply r = Some (JObj kvs))"
  by (auto simp: get_branch_def increment_branch_def increment_task_def insert_task_def reset_branch_def respond_def row_json_def
      split: prod.splits sum.splits list.splits dest: executeQuery_insert_rows)

lemma route_replies:
  assumes "fst (route m n a s) = Inr r"
  shows "\<exists>kvs. reply r = Some (JObj kvs) \<and> (statusCode r \<noteq> 200 \<longrightarrow> map_of kvs ''count'' = None)"
  using assms branch_replies[of n s r]
  by (auto simp: route_def respond_def error_body_def split: if_splits)

lemma handler_replies:
  assumes "httpMethod ev \<noteq> ''OPTIONS''"
  shows "\<exists>kvs. reply (fst (handler ev s)) = Some (JObj kvs) \<and>
           (statusCode (fst (handler ev s)) \<noteq> 200 \<longrightarrow> map_of kvs ''count'' = None)"
proof (cases "fst (handle_request ev s)")
  case (Inl e)
  then show ?thesis
    by (auto simp: handler_def respond_def split: prod.splits)
next
  case (Inr r)
  then have h: "handler ev s = (r, snd (handle_request ev s))"
    by (rule handler_Inr)
  have "\<exists>kvs. reply r = Some (JObj kvs) \<and> (statusCode r \<noteq> 200 \<longrightarrow> map_of kvs ''count'' = None)"
    using Inr assms route_replies
    by (auto simp: handle_request_def Let_def respond_def error_body_def
        split: option.splits sum.splits)
  then show ?thesis
    by (simp add: h)
qed

lemma request_methods:
  "httpMethod (get_request n) \<noteq> ''OPTIONS''" "httpMethod (post_request n a) \<noteq> ''OPTIONS''"
  by (simp_all add: get_request_def post_request_def)

subsection \<open>Transport and storage\<close>

lemma fetch_json_up:
  assumes "link w = LinkUp" and "httpMethod ev \<noteq> ''OPTIONS''"
  shows "\<exists>kvs. reply (fst (handler ev (service w))) = Some (JObj kvs) \<and>
           (statusCode (fst (handler ev (service w))) \<noteq> 200 \<longrightarrow> map_of kvs ''count'' = None) \<and>
           fetch_json ev w =
             (Inr (JObj kvs),
              w\<lparr>sent := sent w @ [ev], clock := clock w + latency w,
                service := snd (handler ev (service w))\<rparr>)"
  using handler_replies[OF assms(2), of "service w"] assms(1)
  by (auto simp: fetch_json_def Let_def split: prod.splits)

lemma fetch_json_down:
  assumes "link w \<noteq> LinkUp"
  shows "\<exists>e s'. fetch_json ev w =
           (Inl e, w\<lparr>sent := sent w @ [ev], clock := clock w + latency w, service := s'\<rparr>)"
proof (cases "link w")
  case LinkUp
  with assms show ?thesis by simp
next
  case LinkDown
  have "w\<lparr>sent := sent w @ [ev], clock := clock w + latency w\<rparr> =
        w\<lparr>sent := sent w @ [ev], clock := clock w + latency w, service := service w\<rparr>"
    by simp
  with LinkDown show ?thesis
    by (auto simp: fetch_json_def Let_def intro: exI[of _ "service w"])
next
  case LinkGarbled
  then show ?thesis
    by (auto simp: fetch_json_def Let_def split: prod.splits)
qed

lemma CacheManager_get_eq:
  "CacheManager_get key w =
     (Inr (case cache_hit key w of None \<Rightarrow> JNull | Some d \<Rightarrow> d),
      if expired key w then purge key w else w)"
  by (simp add: CacheManager_get_def cache_hit_def expired_def purge_def ls_getItem_def
      ls_removeItem_def split: option.splits cache_item.splits)

lemma purge_fields:
  "clock (purge k w) = clock w" "latency (purge k w) = latency w"
  "link (purge k w) = link w" "service (purge k w) = service w"
  "sent (purge k w) = sent w" "container (purge k w) = container w"
  "sessionStorage (purge k w) = sessionStorage w"
  "ls_disabled (localStorage (purge k w)) = ls_disabled (localStorage w)"
  "ls_full (localStorage (purge k w)) = ls_full (localStorage w)"
  "ls_items (localStorage (purge k w)) = (ls_items (localStorage w))(cache_key k := None)"
  by (simp_all add: purge_def)

lemma cache_hit_purge: "cache_hit k (purge k w) = None"
  by (simp add: cache_hit_def purge_def)

lemma hit_not_expired: "cache_hit k w = Some d \<Longrightarrow> \<not> expired k w"
  by (auto simp: cache_hit_def expired_def split: option.splits cache_item.splits if_splits)

lemma cache_key_inj: "cache_key a = cache_key b \<longleftrightarrow> a = b"
  by (simp add: cache_key_def)

lemma CacheManager_set_eq:
  "CacheManager_set key d w =
     (Inr (),
      if ls_disabled (localStorage w) \<or> ls_full (localStorage w) then w
      else w\<lparr>localStorage :=
             (localStorage w)\<lparr>ls_items :=
               (ls_items (localStorage w))(cache_key key \<mapsto> Entry d (clock w))\<rparr>\<rparr>)"
  by (simp add: CacheManager_set_def ls_setItem_def)

lemma CacheManager_clear_eq:
  "CacheManager_clear key w =
     (if ls_disabled (localStorage w) then (Inl SecurityError, w) else (Inr (), purge key w))"
  by (simp add: CacheManager_clear_def ls_removeItem_def purge_def)

lemma cache_hit_frame:
  "localStorage w' = localStorage w \<Longrightarrow> clock w' = clock w \<Longrightarrow>
   cache_hit k w' = cache_hit k w"
  by (simp add: cache_hit_def split: option.splits cache_item.splits)

lemma expired_frame:
  "localStorage w' = localStorage w \<Longrightarrow> clock w' = clock w \<Longrightarrow> expired k w' = expired k w"
  by (simp add: expired_def split: option.splits cache_item.splits)

subsection \<open>fetchCounter and updateCounter\<close>

lemma fetchCounter_hit:
  "cache_hit name w = Some d \<Longrightarrow> truthy d \<Longrightarrow> fetchCounter name w = (Inr d, w)"
  by (simp add: fetchCounter_def CacheManager_get_eq hit_not_expired)

lemma fetchCounter_miss_up:
  assumes "cache_hit name w = None \<or> (\<exists>d. cache_hit name w = Some d \<and> \<not> truthy d)"
    and "link w = LinkUp"
  shows "\<exists>kvs. reply (fst (handler (get_request name) (service w))) = Some (JObj kvs) \<and>
           (statusCode (fst (handler (get_request name) (service w))) \<noteq> 200 \<longrightarrow>
              map_of kvs ''count'' = None) \<and>
           fetchCounter name w =
             (Inr (JObj kvs),
              snd (CacheManager_set name (JObj kvs)
                ((if expired name w then purge name w else w)
                   \<lparr>sent := sent w @ [get_request name], clock := clock w + latency w,
                    service := snd (handler (get_request name) (service w))\<rparr>)))"
proof -
  let ?w1 = "if expired name w then purge name w else w"
  have up: "link ?w1 = LinkUp" and sv: "service ?w1 = service w"
    and sn: "sent ?w1 = sent w" and ck: "clock ?w1 = clock w" and lt: "latency ?w1 = latency w"
    using assms(2) by (simp_all add: purge_fields)
  from fetch_json_up[OF up request_methods(1), of name] obtain kvs where
    k: "reply (fst (handler (get_request name) (service w))) = Some (JObj kvs)"
      "statusCode (fst (handler (get_request name) (service w))) \<noteq> 200 \<longrightarrow>
         map_of kvs ''count'' = None"
      "fetch_json (get_request name) ?w1 =
         (Inr (JObj kvs),
          ?w1\<lparr>sent := sent w @ [get_request name], clock := clock w + latency w,
               service := snd (handler (get_request name) (service w))\<rparr>)"
    unfolding sv sn ck lt by blast
  have falsy: "\<not> truthy (case cache_hit name w of None \<Rightarrow> JNull | Some d \<Rightarrow> d)"
    using assms(1) by auto
  have "fetchCounter name w =
      (Inr (JObj kvs),
       snd (CacheManager_set name (JObj kvs)
         (?w1\<lparr>sent := sent w @ [get_request name], clock := clock w + latency w,
              service := snd (handler (get_request name) (service w))\<rparr>)))"
    using falsy k(3)
    by (simp add: fetchCounter_def CacheManager_get_eq CacheManager_set_eq)
  with k(1,2) show ?thesis
    by blast
qed

lemma fetchCounter_miss_down:
  assumes "cache_hit name w = None \<or> (\<exists>d. cache_hit name w = Some d \<and> \<not> truthy d)"
    and "link w \<noteq> LinkUp"
  shows "\<exists>s'. fetchCounter name w =
           (Inr JNull,
            (if expired name w then purge name w else w)
              \<lparr>sent := sent w @ [get_request name], clock := clock w + latency w,
               service := s'\<rparr>)"
proof -
  let ?w1 = "if expired name w then purge name w else w"
  have dn: "link ?w1 \<noteq> LinkUp"
    and sn: "sent ?w1 = sent w" and ck: "clock ?w1 = clock w" and lt: "latency ?w1 = latency w"
    using assms(2) by (simp_all add: purge_fields)
  from fetch_json_down[OF dn, of "get_request name"] obtain e s' where
    f: "fetch_json (get_request name) ?w1 =
          (Inl e, ?w1\<lparr>sent := sent w @ [get_request name], clock := clock w + latency w,
                       service := s'\<rparr>)"
    unfolding sn ck lt by blast
  have falsy: "\<not> truthy (case cache_hit name w of None \<Rightarrow> JNull | Some d \<Rightarrow> d)"
    using assms(1) by auto
  have "fetchCounter name w =
      (Inr JNull, ?w1\<lparr>sent := sent w @ [get_request name], clock := clock w + latency w,
                       service := s'\<rparr>)"
    using falsy f by (simp add: fetchCounter_def CacheManager_get_eq)
  then show ?thesis
    by blast
qed

lemma updateCounter_up:
  assumes "link w = LinkUp"
  shows "\<exists>kvs. reply (fst (handler (post_request name action) (service w))) = Some (JObj kvs) \<and>
           (statusCode (fst (handler (post_request name action) (service w))) \<noteq> 200 \<longrightarrow>
              map_of kvs ''count'' = None) \<and>
           updateCounter name action w =
             (if ls_disabled (localStorage w) then
                (Inr JNull,
                 w\<lparr>sent := sent w @ [post_request name action], clock := clock w + latency w,
                   service := snd (handler (post_request name action) (service w))\<rparr>)
              else
                (Inr (JObj kvs),
                 purge name
                   (w\<lparr>sent := sent w @ [post_request name action],
                      clock := clock w + latency w,
                      service := snd (handler (post_request name action) (service w))\<rparr>)))"
proof -
  from fetch_json_up[OF assms request_methods(2), of name action] obtain kvs where
    k: "reply (fst (handler (post_request name action) (service w))) = Some (JObj kvs)"
      "statusCode (fst (handler (post_request name action) (service w))) \<noteq> 200 \<longrightarrow>
         map_of kvs ''count'' = None"
      "fetch_json (post_request name action) w =
         (Inr (JObj kvs),
          w\<lparr>sent := sent w @ [post_request name action], clock := clock w + latency w,
            service := snd (handler (post_request name action) (service w))\<rparr>)"
    by blast
  have "updateCounter name action w =
      (if ls_disabled (localStorage w) then
         (Inr JNull,
          w\<lparr>sent := sent w @ [post_request name action], clock := clock w + latency w,
            service := snd (handler (post_request name action) (service w))\<rparr>)
       else
         (Inr (JObj kvs),
          purge name
            (w\<lparr>sent := sent w @ [post_request name action], clock := clock w + latency w,
               service := snd (handler (post_request name action) (service w))\<rparr>)))"
    using k(3) by (simp add: updateCounter_def CacheManager_clear_eq)
  with k(1,2) show ?thesis
    by blast
qed

lemma updateCounter_down:
  assumes "link w \<noteq> LinkUp"
  shows "\<exists>s'. updateCounter name action w =
           (Inr JNull,
            w\<lparr>sent := sent w @ [post_request name action], clock := clock w + latency w,
              service := s'\<rparr>)"
proof -
  from fetch_json_down[OF assms, of "post_request name action"] obtain e s' where
    "fetch_json (post_request name action) w =
       (Inl e, w\<lparr>sent := sent w @ [post_request name action], clock := clock w + latency w,
                 service := s'\<rparr>)"
    by blast
  then have "updateCounter name action w =
       (Inr JNull, w\<lparr>sent := sent w @ [post_request name action],
                     clock := clock w + latency w, service := s'\<rparr>)"
    by (simp add: updateCounter_def)
  then show ?thesis
    by blast
qed

lemma fetchCounter_total: "\<exists>v. fst (fetchCounter name w) = Inr v"
proof (cases "link w = LinkUp")
  case True
  show ?thesis
  proof (cases "cache_hit name w")
    case None
    with fetchCounter_miss_up[of name w] True show ?thesis by fastforce
  next
    case (Some d)
    show ?thesis
    proof (cases "truthy d")
      case True
      with Some fetchCounter_hit show ?thesis by fastforce
    next
      case False
      with Some fetchCounter_miss_up[of name w] \<open>link w = LinkUp\<close> show ?thesis by fastforce
    qed
  qed
next
  case False
  show ?thesis
  proof (cases "cache_hit name w")
    case None
    with fetchCounter_miss_down[of name w] False show ?thesis by fastforce
  next
    case (Some d)
    show ?thesis
    proof (cases "truthy d")
      case True
      with Some fetchCounter_hit show ?thesis by fastforce
    next
      case f: False
      with Some fetchCounter_miss_down[of name w] False show ?thesis by fastforce
    qed
  qed
qed

lemma updateCounter_total: "\<exists>v. fst (updateCounter name action w) = Inr v"
proof (cases "link w = LinkUp")
  case True
  from updateCounter_up[OF this, of name action] show ?thesis
    by (auto split: if_splits)
next
  case False
  from updateCounter_down[OF this, of name action] show ?thesis
    by auto
qed

lemma initCounter_total: "\<exists>b. fst (initCounter name w) = Inr b"
  by (auto simp: initCounter_def Let_def split: option.splits prod.splits sum.splits)

subsection \<open>No exception leaves the cache and fetch helpers\<close>

text \<open>
  The helpers that guard themselves. \<open>CacheManager.get\<close> and \<open>CacheManager.set\<close>
  catch every exception, and \<open>fetchCounter\<close> and \<open>updateCounter\<close> catch those of the
  request and of the calls inside their \<open>try\<close>; \<open>initCounter\<close> catches the rest. So
  these five never throw, whatever the state of the storages and of the transport:
  with the storage disabled the cache reads \<open>null\<close> and ignores the write, with the
  storage full it ignores the write, without a reply \<open>updateCounter\<close> returns \<open>null\<close>,
  \<open>fetchCounter\<close> returns \<open>null\<close> unless it has a cached value, and \<open>initCounter\<close>
  then shows the fallback text.
\<close>

lemma guarded_helpers_never_throw:
  "(\<exists>v. fst (CacheManager_get key w) = Inr v) \<and>
   fst (CacheManager_set key d w) = Inr () \<and>
   (\<exists>v. fst (fetchCounter name w) = Inr v) \<and>
   (\<exists>v. fst (updateCounter name action w) = Inr v) \<and>
   (\<exists>b. fst (initCounter name w) = Inr b) \<and>
   (ls_disabled (localStorage w) \<longrightarrow>
      CacheManager_get key w = (Inr JNull, w) \<and> CacheManager_set key d w = (Inr (), w)) \<and>
   (ls_full (localStorage w) \<longrightarrow> CacheManager_set key d w = (Inr (), w)) \<and>
   (link w \<noteq> LinkUp \<longrightarrow> fst (updateCounter name action w) = Inr JNull) \<and>
   (link w \<noteq> LinkUp \<and> cache_hit name w = None \<longrightarrow>
      fst (fetchCounter name w) = Inr JNull \<and>
      (container w \<noteq> None \<longrightarrow>
         fst (initCounter name w) = Inr False \<and>
         container (snd (initCounter name w)) = Some Fallback))"
proof (intro conjI impI)
  show "\<exists>v. fst (CacheManager_get key w) = Inr v"
    by (simp add: CacheManager_get_eq)
  show "fst (CacheManager_set key d w) = Inr ()"
    by (simp add: CacheManager_set_eq)
  show "\<exists>v. fst (fetchCounter name w) = Inr v"
    by (rule fetchCounter_total)
  show "\<exists>v. fst (updateCounter name action w) = Inr v"
    by (rule updateCounter_total)
  show "\<exists>b. fst (initCounter name w) = Inr b"
    by (rule initCounter_total)
next
  assume "ls_disabled (localStorage w)"
  then show "CacheManager_get key w = (Inr JNull, w)"
    by (simp add: CacheManager_get_eq cache_hit_def expired_def)
next
  assume "ls_disabled (localStorage w)"
  then show "CacheManager_set key d w = (Inr (), w)"
    by (simp add: CacheManager_set_eq)
next
  assume "ls_full (localStorage w)"
  then show "CacheManager_set key d w = (Inr (), w)"
    by (simp add: CacheManager_set_eq)
next
  assume "link w \<noteq> LinkUp"
  from updateCounter_down[OF this, of name action]
  show "fst (updateCounter name action w) = Inr JNull"
    by auto
next
  assume a: "link w \<noteq> LinkUp \<and> cache_hit name w = None"
  with fetchCounter_miss_down[of name w]
  show "fst (fetchCounter name w) = Inr JNull"
    by auto
next
  assume a: "link w \<noteq> LinkUp \<and> cache_hit name w = None" and c: "container w \<noteq> None"
  let ?w0 = "w\<lparr>container := Some Loading\<rparr>"
  have "link ?w0 \<noteq> LinkUp" "cache_hit name ?w0 = None"
    using a by (simp_all add: cache_hit_frame[of ?w0 w])
  with fetchCounter_miss_down[of name ?w0] obtain w1 where
    f: "fetchCounter name ?w0 = (Inr JNull, w1)"
    by auto
  with c show "fst (initCounter name w) = Inr False"
    by (auto simp: initCounter_def)
  from f c show "container (snd (initCounter name w)) = Some Fallback"
    by (auto simp: initCounter_def)
qed

text \<open>
  The five helpers on a page that has no storage and no connection.
\<close>

lemma guarded_helpers_offline:
  "ls_disabled (localStorage offline_world) \<and> link offline_world \<noteq> LinkUp \<and>
   cache_hit ''home'' offline_world = None \<and> container offline_world \<noteq> None \<and>
   CacheManager_get ''home'' offline_world = (Inr JNull, offline_world) \<and>
   CacheManager_set ''home'' (JNum 1) offline_world = (Inr (), offline_world) \<and>
   fst (updateCounter ''home'' ''increment'' offline_world) = Inr JNull \<and>
   fst (fetchCounter ''home'' offline_world) = Inr JNull \<and>
   container (snd (initCounter ''home'' offline_world)) = Some Fallback"
  using guarded_helpers_never_throw[of "''home''" offline_world "JNum 1" "''home''"
      "''increment''"]
  by (simp add: offline_world_def blocked_world_def fresh_world_def cache_hit_def)

text \<open>
  Claim C4 fails on the code. The claim says that no cache or fetch helper ever
  throws to its caller, \<open>CacheManager.clear\<close> and the SessionManager operations
  \<open>hasVisited\<close> and \<open>markVisited\<close> included, whatever the storage failure.
  \<open>CacheManager.get\<close> and \<open>CacheManager.set\<close> wrap their storage access in
  \<open>try\<close>/\<open>catch\<close>; \<open>CacheManager.clear\<close>, \<open>hasVisited\<close> and \<open>markVisited\<close> access the
  storage without one. On a page whose storage access is refused, \<open>get\<close> reads
  \<open>null\<close> and \<open>set\<close> does nothing, while \<open>clear\<close>, \<open>hasVisited\<close> and \<open>markVisited\<close>
  throw the SecurityError of the storage to their caller.
\<close>

theorem unguarded_helpers_throw:
  "fst (CacheManager_get ''home'' blocked_world) = Inr JNull \<and>
   fst (CacheManager_set ''home'' (JNum 1) blocked_world) = Inr () \<and>
   fst (CacheManager_clear ''home'' blocked_world) = Inl SecurityError \<and>
   hasVisited ''home'' blocked_world = Inl SecurityError \<and>
   fst (markVisited ''home'' blocked_world) = Inl SecurityError"
  by code_simp

subsection \<open>The reply body is returned whatever the status\<close>

lemma count_of_obj: "count_of (JObj kvs) = map_of kvs ''count''"
  by (simp add: count_of_def)

text \<open>
  With a reply, \<open>fetchCounter\<close> (on a cache miss) and \<open>updateCounter\<close> (when
  \<open>CacheManager.clear\<close> does not throw) return the parsed body of the function's
  reply whatever its status; the body is an object, hence truthy, and has no
  \<open>count\<close> field when the status is not 200; \<open>updateCounter\<close> purges the cached
  entry also when the reply is an error. Without a reply (the request fails or the
  body does not parse) both return \<open>null\<close>.
\<close>

lemma reply_body_returned:
  "(link w = LinkUp \<and> \<not> ls_disabled (localStorage w) \<longrightarrow>
      (\<exists>j. reply (fst (handler (post_request name action) (service w))) = Some j \<and>
            truthy j \<and>
            (statusCode (fst (handler (post_request name action) (service w))) \<noteq> 200 \<longrightarrow>
               count_of j = None) \<and>
            fst (updateCounter name action w) = Inr j \<and>
            ls_items (localStorage (snd (updateCounter name action w))) (cache_key name)
              = None)) \<and>
   (link w = LinkUp \<and> cache_hit name w = None \<longrightarrow>
      (\<exists>j. reply (fst (handler (get_request name) (service w))) = Some j \<and>
            truthy j \<and>
            (statusCode (fst (handler (get_request name) (service w))) \<noteq> 200 \<longrightarrow>
               count_of j = None) \<and>
            fst (fetchCounter name w) = Inr j)) \<and>
   (link w \<noteq> LinkUp \<longrightarrow> fst (updateCounter name action w) = Inr JNull) \<and>
   (link w \<noteq> LinkUp \<and> cache_hit name w = None \<longrightarrow> fst (fetchCounter name w) = Inr JNull)"
proof (intro conjI impI)
  assume a: "link w = LinkUp \<and> \<not> ls_disabled (localStorage w)"
  then have up: "link w = LinkUp" and en: "\<not> ls_disabled (localStorage w)"
    by simp_all
  from updateCounter_up[OF up, of name action] en obtain kvs where
    k: "reply (fst (handler (post_request name action) (service w))) = Some (JObj kvs)"
      "statusCode (fst (handler (post_request name action) (service w))) \<noteq> 200 \<longrightarrow>
         map_of kvs ''count'' = None"
      "updateCounter name action w =
         (Inr (JObj kvs),
          purge name
            (w\<lparr>sent := sent w @ [post_request name action], clock := clock w + latency w,
               service := snd (handler (post_request name action) (service w))\<rparr>))"
    by auto
  show "\<exists>j. reply (fst (handler (post_request name action) (service w))) = Some j \<and>
            truthy j \<and>
            (statusCode (fst (handler (post_request name action) (service w))) \<noteq> 200 \<longrightarrow>
               count_of j = None) \<and>
            fst (updateCounter name action w) = Inr j \<and>
            ls_items (localStorage (snd (updateCounter name action w))) (cache_key name)
              = None"
    using k by (intro exI[of _ "JObj kvs"]) (simp add: count_of_obj purge_fields)
next
  assume a: "link w = LinkUp \<and> cache_hit name w = None"
  with fetchCounter_miss_up[of name w] obtain kvs where
    k: "reply (fst (handler (get_request name) (service w))) = Some (JObj kvs)"
      "statusCode (fst (handler (get_request name) (service w))) \<noteq> 200 \<longrightarrow>
         map_of kvs ''count'' = None"
      "fst (fetchCounter name w) = Inr (JObj kvs)"
    by fastforce
  show "\<exists>j. reply (fst (handler (get_request name) (service w))) = Some j \<and>
            truthy j \<and>
            (statusCode (fst (handler (get_request name) (service w))) \<noteq> 200 \<longrightarrow>
               count_of j = None) \<and>
            fst (fetchCounter name w) = Inr j"
    using k by (intro exI[of _ "JObj kvs"]) (simp add: count_of_obj)
next
  assume "link w \<noteq> LinkUp"
  from updateCounter_down[OF this, of name action]
  show "fst (updateCounter name action w) = Inr JNull"
    by auto
next
  assume "link w \<noteq> LinkUp \<and> cache_hit name w = None"
  with fetchCounter_miss_down[of name w]
  show "fst (fetchCounter name w) = Inr JNull"
    by auto
qed

text \<open>
  The function cannot reach its database and replies 500: \<open>updateCounter\<close> returns
  the error object, which is truthy and has no count.
\<close>

lemma reply_body_failing_db:
  "link failing_db_world = LinkUp \<and> \<not> ls_disabled (localStorage failing_db_world) \<and>
   cache_hit ''home'' failing_db_world = None \<and>
   statusCode (fst (handler (post_request ''home'' ''increment'') (service failing_db_world)))
     = 500 \<and>
   (\<exists>j. fst (updateCounter ''home'' ''increment'' failing_db_world) = Inr j \<and> truthy j \<and>
         count_of j = None) \<and>
   (\<exists>j. fst (fetchCounter ''home'' failing_db_world) = Inr j \<and> truthy j) \<and>
   fst (updateCounter ''home'' ''increment'' offline_world) = Inr JNull"
proof -
  have h: "link failing_db_world = LinkUp" "\<not> ls_disabled (localStorage failing_db_world)"
    "cache_hit ''home'' failing_db_world = None" "link offline_world \<noteq> LinkUp"
    by (simp_all add: failing_db_world_def offline_world_def blocked_world_def fresh_world_def
        cache_hit_def)
  have st: "statusCode (fst (handler (post_request ''home'' ''increment'')
      (service failing_db_world))) = 500"
    by (simp add: failing_db_world_def fresh_world_def fresh_server_def fresh_store_def
        handler_def handle_request_def route_def post_request_def request_params_def
        string_param_def trim_def is_space_def lower_literals Let_def initTable_def
        executeQuery_def ensureConnected_def connect_client_def increment_branch_def increment_task_def insert_task_def respond_def)
  from reply_body_returned[of failing_db_world "''home''" "''increment''"]
    reply_body_returned[of offline_world "''home''" "''increment''"] h st
  show ?thesis
    by auto
qed

text \<open>
  Claim C10 fails on the code. The claim says that
  \<open>updateCounter\<close> returns the parsed body of the reply whatever the status, and
  that only a transport or JSON-parse failure yields \<open>null\<close>. \<open>updateCounter\<close> calls
  \<open>CacheManager.clear\<close> inside its \<open>try\<close>, after the reply is parsed, and
  \<open>CacheManager.clear\<close> has no guard of its own. On a page whose storage access is
  refused the request is sent, the function increments the counter and replies 200
  with the count 1, \<open>clear\<close> throws, and the \<open>catch\<close> of \<open>updateCounter\<close> returns
  \<open>null\<close>: the caller is told that the increment failed, though the database
  holds it.
\<close>

theorem update_null_after_reply:
  "link blocked_world = LinkUp \<and>
   statusCode (fst (handler (post_request ''home'' ''increment'') (service blocked_world)))
     = 200 \<and>
   reply_count (fst (handler (post_request ''home'' ''increment'') (service blocked_world)))
     = Some 1 \<and>
   fst (updateCounter ''home'' ''increment'' blocked_world) = Inr JNull \<and>
   sent (snd (updateCounter ''home'' ''increment'' blocked_world)) =
     [post_request ''home'' ''increment''] \<and>
   stored_count ''home'' (db (service (snd (updateCounter ''home'' ''increment'' blocked_world))))
     = 1"
  by code_simp

subsection \<open>The cache and its TTL\<close>

lemma CacheManager_set_fields:
  "clock (snd (CacheManager_set k d w)) = clock w"
  "latency (snd (CacheManager_set k d w)) = latency w"
  "link (snd (CacheManager_set k d w)) = link w"
  "service (snd (CacheManager_set k d w)) = service w"
  "sent (snd (CacheManager_set k d w)) = sent w"
  "container (snd (CacheManager_set k d w)) = container w"
  "sessionStorage (snd (CacheManager_set k d w)) = sessionStorage w"
  "ls_disabled (localStorage (snd (CacheManager_set k d w))) = ls_disabled (localStorage w)"
  "ls_full (localStorage (snd (CacheManager_set k d w))) = ls_full (localStorage w)"
  "ls_items (localStorage (snd (CacheManager_set k d w))) =
     (if ls_disabled (localStorage w) \<or> ls_full (localStorage w) then ls_items (localStorage w)
      else (ls_items (localStorage w))(cache_key k \<mapsto> Entry d (clock w)))"
  by (simp_all add: CacheManager_set_eq)

lemma fetchCounter_miss_sent:
  assumes "cache_hit name w = None"
  shows "sent (snd (fetchCounter name w)) = sent w @ [get_request name]"
proof (cases "link w = LinkUp")
  case True
  with fetchCounter_miss_up[of name w] assms show ?thesis
    by (auto simp: CacheManager_set_fields purge_fields)
next
  case False
  with fetchCounter_miss_down[of name w] assms show ?thesis
    by (auto simp: purge_fields)
qed

lemma fetchCounter_frame:
  "sessionStorage (snd (fetchCounter name w)) = sessionStorage w"
  "container (snd (fetchCounter name w)) = container w"
  by (auto simp: fetchCounter_def CacheManager_get_eq CacheManager_set_eq fetch_json_def
      purge_fields Let_def split: prod.splits sum.splits transport.splits option.splits)

lemma updateCounter_frame:
  "sessionStorage (snd (updateCounter name action w)) = sessionStorage w"
  "container (snd (updateCounter name action w)) = container w"
  "ls_disabled (localStorage (snd (updateCounter name action w))) =
     ls_disabled (localStorage w)"
  by (auto simp: updateCounter_def CacheManager_clear_eq fetch_json_def
      purge_fields Let_def split: prod.splits sum.splits transport.splits option.splits)

lemma fetchCounter_up_truthy:
  assumes "link w = LinkUp"
  shows "\<exists>d. fst (fetchCounter name w) = Inr d \<and> truthy d"
proof (cases "cache_hit name w = None \<or> (\<exists>d. cache_hit name w = Some d \<and> \<not> truthy d)")
  case True
  from fetchCounter_miss_up[OF this assms] show ?thesis
    by auto
next
  case False
  then obtain d where "cache_hit name w = Some d" "truthy d"
    by auto
  with fetchCounter_hit show ?thesis
    by fastforce
qed

lemma cache_sound_hit: "cache_sound w \<Longrightarrow> cache_hit name w = Some d \<Longrightarrow> truthy d"
  by (auto simp: cache_sound_def cache_hit_def split: option.splits cache_item.splits if_splits)

text \<open>
  The cache stays sound: the widget stores nothing but replies of the function.
\<close>

lemma cache_sound_fresh: "cache_sound fresh_world"
  by (simp add: cache_sound_def fresh_world_def)

lemma cache_sound_purge: "cache_sound w \<Longrightarrow> cache_sound (purge k w)"
  by (auto simp: cache_sound_def purge_def split: if_splits)

lemma cache_sound_frame:
  "localStorage w' = localStorage w \<Longrightarrow> cache_sound w' = cache_sound w"
  by (simp add: cache_sound_def)

lemma cache_sound_set:
  "cache_sound w \<Longrightarrow> truthy d \<Longrightarrow> cache_sound (snd (CacheManager_set k d w))"
  by (auto simp: cache_sound_def CacheManager_set_eq split: if_splits)

lemma cache_sound_fetchCounter:
  assumes "cache_sound w"
  shows "cache_sound (snd (fetchCounter name w))"
proof -
  let ?w1 = "if expired name w then purge name w else w"
  have s1: "cache_sound ?w1"
    using assms by (simp add: cache_sound_purge)
  have s2: "cache_sound (?w1\<lparr>sent := a, clock := b, service := c\<rparr>)" for a b c
    using s1 cache_sound_frame[of "?w1\<lparr>sent := a, clock := b, service := c\<rparr>" ?w1]
    by simp
  show ?thesis
  proof (cases "cache_hit name w = None \<or> (\<exists>d. cache_hit name w = Some d \<and> \<not> truthy d)")
    case False
    then obtain d where "cache_hit name w = Some d" "truthy d"
      by auto
    with fetchCounter_hit[of name w d] assms show ?thesis
      by simp
  next
    case True
    show ?thesis
    proof (cases "link w = LinkUp")
      case up: True
      from fetchCounter_miss_up[OF True up] obtain kvs where
        "fetchCounter name w =
           (Inr (JObj kvs),
            snd (CacheManager_set name (JObj kvs)
              (?w1\<lparr>sent := sent w @ [get_request name], clock := clock w + latency w,
                   service := snd (handler (get_request name) (service w))\<rparr>)))"
        by blast
      then show ?thesis
        using cache_sound_set[OF s2, of "JObj kvs"] by simp
    next
      case down: False
      from fetchCounter_miss_down[OF True down] obtain s' where
        "fetchCounter name w =
           (Inr JNull,
            ?w1\<lparr>sent := sent w @ [get_request name], clock := clock w + latency w,
                 service := s'\<rparr>)"
        by blast
      then show ?thesis
        using s2 by simp
    qed
  qed
qed

lemma cache_sound_updateCounter:
  assumes "cache_sound w"
  shows "cache_sound (snd (updateCounter name action w))"
proof -
  have s2: "cache_sound (w\<lparr>sent := a, clock := b, service := c\<rparr>)" for a b c
    using assms cache_sound_frame[of "w\<lparr>sent := a, clock := b, service := c\<rparr>" w]
    by simp
  show ?thesis
  proof (cases "link w = LinkUp")
    case True
    from updateCounter_up[OF True, of name action] s2 show ?thesis
      by (auto simp: cache_sound_purge split: if_splits)
  next
    case False
    from updateCounter_down[OF False, of name action] s2 show ?thesis
      by auto
  qed
qed

text \<open>
  Claim C7. An entry older than the TTL of 5 minutes is treated as absent and purged
  by the access that finds it, and by nothing else: no other key is touched.
  \<open>fetchCounter\<close> returns the cached value, and contacts nobody, exactly when the
  entry is there and not older than the TTL (\<open>cache_hit\<close>). Otherwise it sends the
  GET request; with a reply it returns the body and stores it under the time of
  storing; without a reply it returns \<open>null\<close> and leaves every entry that is not
  older than the TTL as it was. The cache is taken to be sound (it holds replies of
  the function only), and storing needs a storage that accepts the write.
\<close>

theorem cache_ttl:
  assumes "cache_sound w"
  shows "(expired key w \<longrightarrow>
            CacheManager_get key w = (Inr JNull, purge key w) \<and>
            cache_hit key w = None \<and>
            ls_items (localStorage (purge key w)) (cache_key key) = None \<and>
            (\<forall>k. k \<noteq> cache_key key \<longrightarrow>
               ls_items (localStorage (purge key w)) k = ls_items (localStorage w) k)) \<and>
         (\<forall>d. cache_hit name w = Some d \<longrightarrow> fetchCounter name w = (Inr d, w)) \<and>
         (cache_hit name w = None \<longrightarrow>
            sent (snd (fetchCounter name w)) = sent w @ [get_request name]) \<and>
         (cache_hit name w = None \<and> link w = LinkUp \<longrightarrow>
            (\<exists>j. reply (fst (handler (get_request name) (service w))) = Some j \<and>
                  fst (fetchCounter name w) = Inr j \<and>
                  clock (snd (fetchCounter name w)) = clock w + latency w \<and>
                  (local_ok w \<longrightarrow>
                     ls_items (localStorage (snd (fetchCounter name w))) (cache_key name) =
                       Some (Entry j (clock w + latency w))))) \<and>
         (cache_hit name w = None \<and> link w \<noteq> LinkUp \<longrightarrow>
            fst (fetchCounter name w) = Inr JNull \<and>
            (\<forall>k d t. ls_items (localStorage w) k = Some (Entry d t) \<and>
                      clock w - t \<le> CACHE_DURATION \<longrightarrow>
               ls_items (localStorage (snd (fetchCounter name w))) k = Some (Entry d t)))"
proof (intro conjI impI allI)
  assume e: "expired key w"
  then have miss: "cache_hit key w = None"
    by (auto simp: expired_def cache_hit_def split: option.splits cache_item.splits)
  show "cache_hit key w = None"
    by (rule miss)
  show "CacheManager_get key w = (Inr JNull, purge key w)"
    using e miss by (simp add: CacheManager_get_eq)
  show "ls_items (localStorage (purge key w)) (cache_key key) = None"
    by (simp add: purge_fields)
  show "ls_items (localStorage (purge key w)) k = ls_items (localStorage w) k"
    if "k \<noteq> cache_key key" for k
    using that by (simp add: purge_fields)
next
  fix d
  assume h: "cache_hit name w = Some d"
  with assms have "truthy d"
    by (rule cache_sound_hit)
  with h show "fetchCounter name w = (Inr d, w)"
    by (rule fetchCounter_hit)
next
  assume "cache_hit name w = None"
  then show "sent (snd (fetchCounter name w)) = sent w @ [get_request name]"
    by (rule fetchCounter_miss_sent)
next
  assume a: "cache_hit name w = None \<and> link w = LinkUp"
  let ?w1 = "if expired name w then purge name w else w"
  from a fetchCounter_miss_up[of name w] obtain kvs where
    k: "reply (fst (handler (get_request name) (service w))) = Some (JObj kvs)"
      "fetchCounter name w =
         (Inr (JObj kvs),
          snd (CacheManager_set name (JObj kvs)
            (?w1\<lparr>sent := sent w @ [get_request name], clock := clock w + latency w,
                 service := snd (handler (get_request name) (service w))\<rparr>)))"
    by blast
  show "\<exists>j. reply (fst (handler (get_request name) (service w))) = Some j \<and>
                  fst (fetchCounter name w) = Inr j \<and>
                  clock (snd (fetchCounter name w)) = clock w + latency w \<and>
                  (local_ok w \<longrightarrow>
                     ls_items (localStorage (snd (fetchCounter name w))) (cache_key name) =
                       Some (Entry j (clock w + latency w)))"
    using k
    by (intro exI[of _ "JObj kvs"])
       (auto simp: CacheManager_set_fields purge_fields local_ok_def)
next
  assume a: "cache_hit name w = None \<and> link w \<noteq> LinkUp"
  with fetchCounter_miss_down[of name w] obtain s' where
    f: "fetchCounter name w =
          (Inr JNull,
           (if expired name w then purge name w else w)
             \<lparr>sent := sent w @ [get_request name], clock := clock w + latency w,
              service := s'\<rparr>)"
    by blast
  then show "fst (fetchCounter name w) = Inr JNull"
    by simp
  show "ls_items (localStorage (snd (fetchCounter name w))) k = Some (Entry d t)"
    if u: "ls_items (localStorage w) k = Some (Entry d t) \<and> clock w - t \<le> CACHE_DURATION"
    for k d t
  proof (cases "expired name w \<and> k = cache_key name")
    case True
    with u show ?thesis
      by (auto simp: expired_def)
  next
    case False
    with u f show ?thesis
      by (auto simp: purge_fields)
  qed
qed

text \<open>
  An entry one second old is handed out without a request; an entry one millisecond
  older than the TTL is purged, and without a connection the result is \<open>null\<close>.
\<close>

theorem cache_ttl_witness:
  "cache_sound cached_world \<and> cache_sound stale_world \<and>
   cache_hit ''home'' cached_world = Some (JObj [(''count'', JNum 5)]) \<and>
   fetchCounter ''home'' cached_world = (Inr (JObj [(''count'', JNum 5)]), cached_world) \<and>
   expired ''home'' stale_world \<and> cache_hit ''home'' stale_world = None \<and>
   link stale_world \<noteq> LinkUp \<and>
   CacheManager_get ''home'' stale_world = (Inr JNull, purge ''home'' stale_world) \<and>
   sent (snd (fetchCounter ''home'' stale_world)) = [get_request ''home''] \<and>
   fst (fetchCounter ''home'' stale_world) = Inr JNull"
proof -
  have h: "cache_sound cached_world" "cache_sound stale_world"
    "cache_hit ''home'' cached_world = Some (JObj [(''count'', JNum 5)])"
    "expired ''home'' stale_world" "link stale_world \<noteq> LinkUp" "sent stale_world = []"
    by (simp_all add: cache_sound_def cache_hit_def expired_def stale_world_def
        cached_world_def fresh_world_def CACHE_DURATION_def)
  from cache_ttl[OF h(1), of "''home''" "''home''"] cache_ttl[OF h(2), of "''home''" "''home''"] h
  show ?thesis
    by simp
qed

subsection \<open>Reuse and invalidation of the cache\<close>

lemma advance_fields:
  "clock (advance e w) = clock w + e" "latency (advance e w) = latency w"
  "link (advance e w) = link w" "service (advance e w) = service w"
  "sent (advance e w) = sent w" "container (advance e w) = container w"
  "sessionStorage (advance e w) = sessionStorage w"
  "localStorage (advance e w) = localStorage w"
  by (simp_all add: advance_def)

text \<open>
  Claim C1, as the code has it. The claim says that a cached result is reused within
  5 minutes of the prior fetch or update, and that in the end-to-end scenario the GET
  after the increment POST returns the cached count 1 without a network call. But
  \<open>updateCounter\<close> stores nothing and purges the entry. What holds: after a
  \<open>fetchCounter\<close> that got a reply and stored it, every \<open>fetchCounter\<close> for the name
  within 5 minutes returns the same value and leaves the state as it is (nothing is
  sent); after an \<open>updateCounter\<close> that got a reply, with \<open>localStorage\<close> accessible,
  the name has no cached value however little time passes, and the next
  \<open>fetchCounter\<close> sends its GET request.
\<close>

theorem cache_reuse_and_invalidation:
  "(link w = LinkUp \<and> local_ok w \<and> cache_hit name w = None \<and> e \<le> CACHE_DURATION \<longrightarrow>
      fetchCounter name (advance e (snd (fetchCounter name w))) =
        (fst (fetchCounter name w), advance e (snd (fetchCounter name w)))) \<and>
   (link w = LinkUp \<and> \<not> ls_disabled (localStorage w) \<longrightarrow>
      cache_hit name (advance e (snd (updateCounter name action w))) = None \<and>
      sent (snd (fetchCounter name (advance e (snd (updateCounter name action w))))) =
        sent (snd (updateCounter name action w)) @ [get_request name])"
proof (intro conjI impI)
  assume a: "link w = LinkUp \<and> local_ok w \<and> cache_hit name w = None \<and> e \<le> CACHE_DURATION"
  let ?w1 = "if expired name w then purge name w else w"
  let ?w2 = "snd (fetchCounter name w)"
  from a fetchCounter_miss_up[of name w] obtain kvs where
    k: "fetchCounter name w =
         (Inr (JObj kvs),
          snd (CacheManager_set name (JObj kvs)
            (?w1\<lparr>sent := sent w @ [get_request name], clock := clock w + latency w,
                 service := snd (handler (get_request name) (service w))\<rparr>)))"
    by blast
  have ok: "\<not> ls_disabled (localStorage w)" "\<not> ls_full (localStorage w)"
    using a by (simp_all add: local_ok_def)
  have "ls_items (localStorage ?w2) (cache_key name) =
          Some (Entry (JObj kvs) (clock w + latency w))"
    and "clock ?w2 = clock w + latency w"
    and "\<not> ls_disabled (localStorage ?w2)"
    using ok by (simp_all add: k CacheManager_set_fields purge_fields)
  then have "cache_hit name (advance e ?w2) = Some (JObj kvs)"
    using a by (simp add: cache_hit_def advance_fields)
  then have "fetchCounter name (advance e ?w2) = (Inr (JObj kvs), advance e ?w2)"
    by (rule fetchCounter_hit) simp
  then show "fetchCounter name (advance e ?w2) = (fst (fetchCounter name w), advance e ?w2)"
    by (simp add: k)
next
  assume a: "link w = LinkUp \<and> \<not> ls_disabled (localStorage w)"
  let ?w2 = "snd (updateCounter name action w)"
  from a updateCounter_up[of w name action] obtain kvs where
    "updateCounter name action w =
       (Inr (JObj kvs),
        purge name
          (w\<lparr>sent := sent w @ [post_request name action], clock := clock w + latency w,
             service := snd (handler (post_request name action) (service w))\<rparr>))"
    by auto
  then have "ls_items (localStorage ?w2) (cache_key name) = None"
    by (simp add: purge_fields)
  then show miss: "cache_hit name (advance e ?w2) = None"
    by (simp add: cache_hit_def advance_fields)
  from fetchCounter_miss_sent[OF miss]
  show "sent (snd (fetchCounter name (advance e ?w2))) = sent ?w2 @ [get_request name]"
    by (simp add: advance_fields)
qed

text \<open>
  On a fresh page: the value fetched for \<open>home\<close> is handed out again one second
  later with nothing sent, and after an increment the name has no cached value.
\<close>

theorem cache_reuse_and_invalidation_witness:
  "link fresh_world = LinkUp \<and> local_ok fresh_world \<and>
   cache_hit ''home'' fresh_world = None \<and> (1000 :: int) \<le> CACHE_DURATION \<and>
   fetchCounter ''home'' (advance 1000 scenario_after_get) =
     (fst (fetchCounter ''home'' fresh_world), advance 1000 scenario_after_get) \<and>
   cache_hit ''home'' (advance 1000 (snd (updateCounter ''home'' ''increment'' fresh_world)))
     = None"
proof -
  have h: "link fresh_world = LinkUp" "local_ok fresh_world"
    "cache_hit ''home'' fresh_world = None" "(1000 :: int) \<le> CACHE_DURATION"
    by (simp_all add: fresh_world_def local_ok_def cache_hit_def CACHE_DURATION_def)
  from cache_reuse_and_invalidation[of fresh_world "''home''" 1000 "''increment''"] h
  show ?thesis
    by (simp add: scenario_after_get_def local_ok_def)
qed

text \<open>
  The end-to-end scenario of the claim fails. On a fresh page the first GET returns
  count 0 and the increment POST returns count 1; after it the name has no cached
  value, and the GET that follows sends a request (it returns count 1, from the
  function).
\<close>

theorem cached_scenario_counterexample:
  "returned_count (fst (fetchCounter ''home'' fresh_world)) = Some 0 \<and>
   returned_count (fst (updateCounter ''home'' ''increment'' scenario_after_get)) = Some 1 \<and>
   cache_hit ''home'' scenario_after_post = None \<and>
   returned_count (fst (fetchCounter ''home'' scenario_after_post)) = Some 1 \<and>
   sent (snd (fetchCounter ''home'' scenario_after_post)) =
     sent scenario_after_post @ [get_request ''home'']"
  by code_simp

subsection \<open>The delayed increment\<close>

lemma hasVisited_frame:
  "sessionStorage w' = sessionStorage w \<Longrightarrow> hasVisited n w' = hasVisited n w"
  by (simp add: hasVisited_def read_visited_def)

lemma markVisited_ok:
  assumes "session_ok w"
  shows "fst (markVisited n w) = Inr ()"
    and "n \<noteq> ''__proto__'' \<Longrightarrow> hasVisited n (snd (markVisited n w)) = Inr True"
    and "container (snd (markVisited n w)) = container w"
  using assms
  by (auto simp: session_ok_def markVisited_def hasVisited_def read_visited_def ss_getItem_def
      ss_setItem_def split: option.splits session_item.splits)

lemma session_ok_frame:
  "sessionStorage w' = sessionStorage w \<Longrightarrow> session_ok w' = session_ok w"
  by (simp add: session_ok_def)

text \<open>
  What the timer's callback does with the value \<open>updateCounter\<close> returns (it always
  returns one). A falsy value ends the callback: the session storage and the container
  are as before, and if the name was not marked, the next load of the page that gets
  its data schedules the increment again. A truthy value is written into the displayed
  element and \<open>markVisited\<close> runs; with a working session storage the flag is set.
\<close>

lemma delayed_increment_cases:
  "(\<exists>u. fst (updateCounter name ''increment'' w) = Inr u) \<and>
   (fst (updateCounter name ''increment'' w) = Inr u \<and> \<not> truthy u \<longrightarrow>
      delayed_increment name w = (Inr (), snd (updateCounter name ''increment'' w)) \<and>
      sessionStorage (snd (delayed_increment name w)) = sessionStorage w \<and>
      container (snd (delayed_increment name w)) = container w \<and>
      hasVisited name (snd (delayed_increment name w)) = hasVisited name w) \<and>
   (fst (updateCounter name ''increment'' w) = Inr u \<and> \<not> truthy u \<and>
    hasVisited name w = Inr False \<longrightarrow>
      fst (initCounter name ((reload (snd (delayed_increment name w)))\<lparr>link := LinkUp\<rparr>))
        = Inr True) \<and>
   (fst (updateCounter name ''increment'' w) = Inr u \<and> truthy u \<and>
    container w = Some (Displayed c) \<longrightarrow>
      delayed_increment name w =
        markVisited name
          ((snd (updateCounter name ''increment'' w))
             \<lparr>container := Some (Displayed (count_of u))\<rparr>) \<and>
      (session_ok w \<and> name \<noteq> ''__proto__'' \<longrightarrow>
         fst (delayed_increment name w) = Inr () \<and>
         container (snd (delayed_increment name w)) = Some (Displayed (count_of u)) \<and>
         hasVisited name (snd (delayed_increment name w)) = Inr True))"
proof (intro conjI impI)
  show "\<exists>u. fst (updateCounter name ''increment'' w) = Inr u"
    by (rule updateCounter_total)
next
  assume a: "fst (updateCounter name ''increment'' w) = Inr u \<and> \<not> truthy u"
  then show d: "delayed_increment name w = (Inr (), snd (updateCounter name ''increment'' w))"
    by (auto simp: delayed_increment_def split: prod.splits)
  show "sessionStorage (snd (delayed_increment name w)) = sessionStorage w"
    by (simp add: d updateCounter_frame)
  show "container (snd (delayed_increment name w)) = container w"
    by (simp add: d updateCounter_frame)
  show "hasVisited name (snd (delayed_increment name w)) = hasVisited name w"
    by (rule hasVisited_frame) (simp add: d updateCounter_frame)
next
  assume a: "fst (updateCounter name ''increment'' w) = Inr u \<and> \<not> truthy u \<and>
    hasVisited name w = Inr False"
  then have d: "delayed_increment name w = (Inr (), snd (updateCounter name ''increment'' w))"
    by (auto simp: delayed_increment_def split: prod.splits)
  let ?w' = "(reload (snd (delayed_increment name w)))\<lparr>link := LinkUp\<rparr>"
  let ?w0 = "?w'\<lparr>container := Some Loading\<rparr>"
  have ss: "sessionStorage ?w' = sessionStorage w"
    by (simp add: d reload_def updateCounter_frame)
  have "link ?w0 = LinkUp"
    by simp
  from fetchCounter_up_truthy[OF this, of name] obtain x where
    x: "fst (fetchCounter name ?w0) = Inr x" "truthy x"
    by blast
  have "sessionStorage (snd (fetchCounter name ?w0)
      \<lparr>container := Some (Displayed (count_of x))\<rparr>) = sessionStorage w"
    using ss by (simp add: fetchCounter_frame)
  then have "hasVisited name (snd (fetchCounter name ?w0)
      \<lparr>container := Some (Displayed (count_of x))\<rparr>) = Inr False"
    using a hasVisited_frame by metis
  with x show "fst (initCounter name ?w') = Inr True"
    by (auto simp: initCounter_def reload_def Let_def split: prod.splits)
next
  assume a: "fst (updateCounter name ''increment'' w) = Inr u \<and> truthy u \<and>
    container w = Some (Displayed c)"
  let ?w1 = "snd (updateCounter name ''increment'' w)"
  have c1: "container ?w1 = Some (Displayed c)"
    using a by (simp add: updateCounter_frame)
  show d: "delayed_increment name w =
      markVisited name (?w1\<lparr>container := Some (Displayed (count_of u))\<rparr>)"
    using a c1 by (auto simp: delayed_increment_def split: prod.splits)
  assume s: "session_ok w \<and> name \<noteq> ''__proto__''"
  have "session_ok (?w1\<lparr>container := Some (Displayed (count_of u))\<rparr>)"
    using s session_ok_frame[of "?w1\<lparr>container := Some (Displayed (count_of u))\<rparr>" w]
    by (simp add: updateCounter_frame)
  from markVisited_ok[OF this, of name] s
  show "fst (delayed_increment name w) = Inr ()"
    and "container (snd (delayed_increment name w)) = Some (Displayed (count_of u))"
    and "hasVisited name (snd (delayed_increment name w)) = Inr True"
    by (simp_all add: d)
qed

text \<open>
  Claim C3 fails on the code. The claim says that \<open>markVisited\<close> is called exactly
  when the scheduled increment succeeds, and that after a failed call the name stays
  unmarked, so that a reload in the same session may retry. The callback tests
  \<open>if (updated)\<close>, and \<open>updateCounter\<close> returns the parsed body of any reply,
  whatever its status. A first visit while the function cannot reach its database:
  the page loads and schedules the increment; one second later the increment is
  answered 500 with an error body and no count; the callback takes the error object
  for a success, shows its missing count and marks the name as visited. No row was
  incremented, and the reload in the same session schedules no increment.
\<close>

theorem failed_increment_marks_session:
  "fst (initCounter ''page_home'' failing_db_world) = Inr True \<and>
   statusCode (fst (handler (post_request ''page_home'' ''increment'')
     (service (advance 1000 failed_load)))) = 500 \<and>
   reply_count (fst (handler (post_request ''page_home'' ''increment'')
     (service (advance 1000 failed_load)))) = None \<and>
   hasVisited ''page_home'' (advance 1000 failed_load) = Inr False \<and>
   fst (delayed_increment ''page_home'' (advance 1000 failed_load)) = Inr () \<and>
   hasVisited ''page_home'' failed_callback = Inr True \<and>
   container failed_callback = Some (Displayed None) \<and>
   stored_count ''page_home'' (db (service failed_callback)) = 0 \<and>
   fst (initCounter ''page_home'' (reload failed_callback)) = Inr False"
  by code_simp

end
